theory Spec2Isabelle
  imports Complex_Main "HOL-Library.Word" "HOL-Library.Log_Nat" "HOL-Library.Sublist"
begin

unbundle bit_operations_syntax

section \<open>Python values and errors\<close>

text \<open>
  The module \<^verbatim>\<open>pygovee/bluetooth/lightstrip_ble.py\<close> is dynamically typed: \<^verbatim>\<open>_send\<close> checks
  the run-time class of its arguments with \<^verbatim>\<open>isinstance\<close>.  The values that can reach those
  checks are modelled by a datatype.  A \<^verbatim>\<open>bytes\<close> object is a list of 8-bit words; Python's
  unbounded integers are \<open>int\<close>; \<^verbatim>\<open>bool\<close> is a subclass of \<^verbatim>\<open>int\<close> in Python, so
  \<^verbatim>\<open>isinstance(True, int)\<close> holds and \<^verbatim>\<open>True\<close> counts as 1.
\<close>

type_synonym byte = "8 word"
type_synonym frame = "byte list"

datatype pyval =
    PyInt int
  | PyBool bool
  | PyBytes "byte list"
  | PyList "pyval list"
  | PyStr string
  | PyNone

text \<open>Every exception the module raises itself is a \<^verbatim>\<open>ValueError\<close> with a message.\<close>

datatype py_error = ValueError string

text \<open>\<^verbatim>\<open>isinstance(x, int)\<close>, giving the integer value when the test succeeds.\<close>

fun as_int :: "pyval \<Rightarrow> int option" where
  "as_int (PyInt i) = Some i"
| "as_int (PyBool b) = Some (if b then 1 else 0)"
| "as_int (PyBytes bs) = None"
| "as_int (PyList xs) = None"
| "as_int (PyStr s) = None"
| "as_int PyNone = None"

text \<open>
  The payload test of \<^verbatim>\<open>_send\<close> (source lines 96--98): the payload is a \<^verbatim>\<open>bytes\<close> object, or a
  list all of whose elements are instances of \<^verbatim>\<open>int\<close>.  \<open>Inl\<close> carries the bytes, \<open>Inr\<close> the
  integers of the list; \<open>None\<close> is the case where the source raises \<^verbatim>\<open>ValueError('Invalid payload')\<close>.
\<close>

fun check_payload :: "pyval \<Rightarrow> (byte list + int list) option" where
  "check_payload (PyBytes bs) = Some (Inl bs)"
| "check_payload (PyList xs) = map_option Inr (those (map as_int xs))"
| "check_payload (PyInt i) = None"
| "check_payload (PyBool b) = None"
| "check_payload (PyStr s) = None"
| "check_payload PyNone = None"

text \<open>\<^verbatim>\<open>len(payload)\<close> for a payload that passed the test.\<close>

fun payload_len :: "byte list + int list \<Rightarrow> nat" where
  "payload_len (Inl bs) = length bs"
| "payload_len (Inr ns) = length ns"

text \<open>
  The constructor \<^verbatim>\<open>bytes(iterable_of_ints)\<close>: every element must lie in \<^verbatim>\<open>range(0, 256)\<close>,
  otherwise CPython raises \<^verbatim>\<open>ValueError('bytes must be in range(0, 256)')\<close>.
\<close>

definition bytes_of_ints :: "int list \<Rightarrow> py_error + byte list" where
  "bytes_of_ints ns =
     (if list_all (\<lambda>n. 0 \<le> n \<and> n < 256) ns then Inr (map word_of_int ns)
      else Inl (ValueError ''bytes must be in range(0, 256)''))"

text \<open>\<^verbatim>\<open>bytes(payload)\<close>: the identity on a \<^verbatim>\<open>bytes\<close> object, the constructor above on a list.\<close>

fun payload_bytes :: "byte list + int list \<Rightarrow> py_error + byte list" where
  "payload_bytes (Inl bs) = Inr bs"
| "payload_bytes (Inr ns) = bytes_of_ints ns"

text \<open>Sequencing of computations that may raise.\<close>

definition bind_err :: "'e + 'a \<Rightarrow> ('a \<Rightarrow> 'e + 'b) \<Rightarrow> 'e + 'b" where
  "bind_err m f = (case m of Inl e \<Rightarrow> Inl e | Inr x \<Rightarrow> f x)"

section \<open>Frames\<close>

text \<open>
  Padding and checksum, as written twice in the source (lines 105--113 in \<^verbatim>\<open>_send\<close>, lines
  42--46 in \<^verbatim>\<open>work\<close>):
  \<^verbatim>\<open>
    frame += bytes([0] * (19 - len(frame)))
    checksum = 0
    for b in frame:
        checksum ^= b
    frame += bytes([checksum & 0xFF])
  \<close>
  A list multiplied by a negative number is empty in Python, which \<open>nat\<close> of a negative
  integer gives as well.  Iterating over \<^verbatim>\<open>bytes\<close> yields integers, so the checksum is
  accumulated in an \<open>int\<close>.
\<close>

definition pad_checksum :: "byte list \<Rightarrow> py_error + frame" where
  "pad_checksum fr0 =
     bind_err (bytes_of_ints (replicate (nat (19 - int (length fr0))) 0)) (\<lambda>padding.
       let fr = fr0 @ padding;
           checksum = fold (\<lambda>b c. c XOR uint b) fr (0::int)
       in bind_err (bytes_of_ints [checksum AND 0xFF]) (\<lambda>cs. Inr (fr @ cs)))"

text \<open>
  The frame construction of \<^verbatim>\<open>BLEController._send\<close> (source lines 93--113), up to but not
  including \<^verbatim>\<open>self._queue.put(frame)\<close>.  The checks are in the order of the source.
\<close>

definition send_frame :: "pyval \<Rightarrow> pyval \<Rightarrow> py_error + frame" where
  "send_frame cmd payload =
     (case as_int cmd of
        None \<Rightarrow> Inl (ValueError ''Invalid command'')
      | Some c \<Rightarrow>
          (case check_payload payload of
             None \<Rightarrow> Inl (ValueError ''Invalid payload'')
           | Some p \<Rightarrow>
               if 17 < payload_len p then Inl (ValueError ''Payload too long'')
               else
                 bind_err (bytes_of_ints [0x33, c AND 0xFF]) (\<lambda>hdr.
                 bind_err (payload_bytes p) (\<lambda>body.
                   pad_checksum (hdr @ body)))))"

text \<open>The keep-alive frame built inside the worker (source lines 41--46).\<close>

definition keepalive_frame :: "py_error + frame" where
  "keepalive_frame = bind_err (bytes_of_ints [0xAA, 0x01]) pad_checksum"

section \<open>Floating-point arithmetic\<close>

text \<open>
  \<^verbatim>\<open>round((value / 100) * 0xFF)\<close> in \<^verbatim>\<open>set_brightness\<close> and \<^verbatim>\<open>prev_time + 3\<close> in \<^verbatim>\<open>work\<close>
  are computed in IEEE binary64: the true division of two integers is correctly rounded, so
  are the product and the sum, and \<^verbatim>\<open>round\<close> of a float rounds to the nearest integer with
  ties to even.  A finite binary64 value is \<open>m * 2^e\<close> for integers \<open>m\<close> and \<open>e\<close> and is
  represented by the pair \<open>(m, e)\<close>; a rational number is given by a numerator and a positive
  denominator.  The exponent range is not modelled: \<^verbatim>\<open>set_brightness\<close> reaches this
  arithmetic only with \<open>0 \<le> value \<le> 100\<close>, where all intermediate results are zero or normal
  numbers below 256, and \<^verbatim>\<open>work\<close> adds 3 to a reading of the clock, a number of seconds far
  from both ends of the range.
\<close>

type_synonym float64 = "int \<times> int"

text \<open>\<open>p / q\<close> rounded to the nearest integer, ties to even (\<open>0 < q\<close>).\<close>

definition round_ratio :: "int \<Rightarrow> int \<Rightarrow> int" where
  "round_ratio p q =
     (let n = p div q; r = p mod q
      in if 2 * r < q then n else if q < 2 * r then n + 1 else if even n then n else n + 1)"

text \<open>\<open>p / q * 2^k\<close> as a numerator and a denominator.\<close>

definition scale_ratio :: "int \<Rightarrow> int \<Rightarrow> int \<Rightarrow> int \<times> int" where
  "scale_ratio p q k = (if 0 \<le> k then (p * 2 ^ nat k, q) else (p, q * 2 ^ nat (- k)))"

text \<open>The exponent \<open>e\<close> with \<open>2^e \<le> p / q < 2^(e+1)\<close>, for \<open>0 < p\<close> and \<open>0 < q\<close>.\<close>

definition binade :: "int \<Rightarrow> int \<Rightarrow> int" where
  "binade p q =
     (let e0 = bitlen p - bitlen q; (p', q') = scale_ratio p q (- e0)
      in if q' \<le> p' then e0 else e0 - 1)"

text \<open>The binary64 number nearest to \<open>p / q\<close> (53-bit significand, ties to even), \<open>0 < q\<close>.\<close>

definition fl :: "int \<Rightarrow> int \<Rightarrow> float64" where
  "fl p q =
     (if p = 0 then (0, 0)
      else let e = binade \<bar>p\<bar> q; (p', q') = scale_ratio \<bar>p\<bar> q (52 - e)
           in (sgn p * round_ratio p' q', e - 52))"

text \<open>\<^verbatim>\<open>a / b\<close> on integers (\<open>b \<noteq> 0\<close>), \<^verbatim>\<open>x * n\<close> for a float and an integer, \<^verbatim>\<open>round(x)\<close>.\<close>

definition py_truediv :: "int \<Rightarrow> int \<Rightarrow> float64" where
  "py_truediv a b = fl (a * sgn b) \<bar>b\<bar>"

definition py_fmul :: "float64 \<Rightarrow> int \<Rightarrow> float64" where
  "py_fmul x n = (let (p, q) = scale_ratio (fst x * n) 1 (snd x) in fl p q)"

definition py_round :: "float64 \<Rightarrow> int" where
  "py_round x = (let (p, q) = scale_ratio (fst x) 1 (snd x) in round_ratio p q)"

text \<open>
  The rational number denoted by a binary64 value, and \<^verbatim>\<open>x + n\<close> for a float \<open>x\<close> (given by
  the rational number it denotes) and an integer \<open>n\<close>: the binary64 number nearest to the
  exact sum.
\<close>

definition float_val :: "float64 \<Rightarrow> rat" where
  "float_val x =
     (if 0 \<le> snd x then of_int (fst x * 2 ^ nat (snd x))
      else of_int (fst x) / of_int (2 ^ nat (- snd x)))"

definition py_fadd :: "rat \<Rightarrow> int \<Rightarrow> rat" where
  "py_fadd x n = (let (p, q) = quotient_of (x + of_int n) in float_val (fl p q))"

text \<open>The scaling of \<^verbatim>\<open>set_brightness\<close> (source line 156).\<close>

definition brightness_byte :: "int \<Rightarrow> int" where
  "brightness_byte v = py_round (py_fmul (py_truediv v 100) 0xFF)"

text \<open>
  For comparison, the spec's \<open>round(percent/100*255)\<close>: the exact quotient rounded to the
  nearest integer, a tie going up (\<open>round x = \<lfloor>x + 1/2\<rfloor>\<close>).
\<close>

definition spec_brightness_byte :: "int \<Rightarrow> int" where
  "spec_brightness_byte percent = round (of_int percent / 100 * 255 :: rat)"

text \<open>The same quotient rounded to the nearest integer, a tie going to the even neighbour.\<close>

definition brightness_half_even :: "int \<Rightarrow> int" where
  "brightness_half_even percent = round_ratio (percent * 255) 100"

section \<open>Shared state of controller and worker\<close>

text \<open>
  One \<^verbatim>\<open>BLEController\<close> owns one \<^verbatim>\<open>queue.Queue\<close> and one \<^verbatim>\<open>_BLEThread\<close>.  The record holds what
  the two sides share and what the worker keeps between loop iterations:
  \<^item> \<open>queue\<close>, \<open>unfinished\<close>: the items of the \<^verbatim>\<open>Queue\<close> in FIFO order and its counter
    \<^verbatim>\<open>unfinished_tasks\<close> (incremented by \<^verbatim>\<open>put\<close>, decremented by \<^verbatim>\<open>task_done\<close>, awaited to be
    zero by \<^verbatim>\<open>join\<close>);
  \<^item> \<open>blocking\<close>: the attribute \<^verbatim>\<open>BLEController.blocking\<close>;
  \<^item> \<open>stop\<close>, \<open>ready\<close>: the attributes of \<^verbatim>\<open>_BLEThread\<close>;
  \<^item> \<open>prev_time\<close>: the local variable of \<^verbatim>\<open>work\<close>;
  \<^item> \<open>wpc\<close>: where the worker thread stands in \<^verbatim>\<open>work\<close>;
  \<^item> \<open>connected\<close>: whether the \<^verbatim>\<open>async with self.client\<close> block is entered and not yet left;
  \<^item> \<open>link\<close>: the frames passed to \<^verbatim>\<open>write_gatt_char\<close> whose write has completed, in order;
  \<^item> \<open>enq_log\<close>: the history of \<^verbatim>\<open>Queue.put\<close> calls, each with the calling thread.
  The last two are histories of what crossed the two interfaces; no operation reads them.
  Clock readings (\<^verbatim>\<open>time()\<close>) are binary64 numbers of seconds, given by the rational numbers
  they denote.
\<close>

type_synonym tid = nat
type_synonym time = rat

datatype worker_pc =
    Starting
  | Connecting
  | LoopHead
  | Polling
  | Sending frame
  | Sent
  | KeepAlive frame
  | Exited
  | Crashed

record sys =
  queue :: "frame list"
  unfinished :: nat
  blocking :: bool
  stop :: bool
  ready :: bool
  prev_time :: time
  wpc :: worker_pc
  connected :: bool
  link :: "frame list"
  enq_log :: "(tid \<times> frame) list"

section \<open>The controller's methods\<close>

text \<open>
  A method call runs in the caller's thread.  It finishes (\<open>Done\<close>), raises (\<open>Raised\<close>), or
  reaches \<^verbatim>\<open>self._queue.join()\<close> and blocks (\<open>Wait\<close>): \<open>Wait s k\<close> leaves the shared state
  \<open>s\<close> behind, and when \<^verbatim>\<open>join\<close> returns the rest of the call, \<open>k\<close>, runs on the shared state
  of that moment.
\<close>

datatype outcome =
    Done sys
  | Raised py_error sys
  | Wait sys "sys \<Rightarrow> outcome"

primrec bind_outcome :: "outcome \<Rightarrow> (sys \<Rightarrow> outcome) \<Rightarrow> outcome" where
  "bind_outcome (Done s) g = g s"
| "bind_outcome (Raised e s) g = Raised e s"
| "bind_outcome (Wait s k) g = Wait s (\<lambda>s'. bind_outcome (k s') g)"

text \<open>The shared state a call leaves behind when it finishes, raises or starts to wait.\<close>

primrec state_of :: "outcome \<Rightarrow> sys" where
  "state_of (Done s) = s"
| "state_of (Raised e s) = s"
| "state_of (Wait s k) = s"

text \<open>\<^verbatim>\<open>Queue.put(frame)\<close> on an unbounded queue, by thread \<open>t\<close>; \<^verbatim>\<open>Queue.join()\<close>.\<close>

definition queue_put :: "tid \<Rightarrow> frame \<Rightarrow> sys \<Rightarrow> sys" where
  "queue_put t f s =
     s\<lparr>queue := queue s @ [f], unfinished := Suc (unfinished s), enq_log := enq_log s @ [(t, f)]\<rparr>"

definition queue_join :: "sys \<Rightarrow> outcome" where
  "queue_join s = Wait s Done"

text \<open>\<^verbatim>\<open>BLEController._send(cmd, payload)\<close>, source lines 90--120, called by thread \<open>t\<close>.\<close>

definition send :: "tid \<Rightarrow> pyval \<Rightarrow> pyval \<Rightarrow> sys \<Rightarrow> outcome" where
  "send t cmd payload s =
     (case send_frame cmd payload of
        Inl e \<Rightarrow> Raised e s
      | Inr f \<Rightarrow>
          let s' = queue_put t f s
          in if blocking s' then queue_join s' else Done s')"

text \<open>\<^verbatim>\<open>_cleanup\<close>, which calls \<^verbatim>\<open>_BLEThread.stop_work\<close>.\<close>

definition stop_work :: "sys \<Rightarrow> sys" where
  "stop_work s = s\<lparr>stop := True\<rparr>"

definition cleanup :: "sys \<Rightarrow> sys" where
  "cleanup s = stop_work s"

definition turn_off :: "tid \<Rightarrow> sys \<Rightarrow> outcome" where
  "turn_off t s = send t (PyInt 0x01) (PyList [PyInt 0x0]) s"

definition turn_on :: "tid \<Rightarrow> sys \<Rightarrow> outcome" where
  "turn_on t s = send t (PyInt 0x01) (PyList [PyInt 0x1]) s"

definition set_brightness :: "tid \<Rightarrow> int \<Rightarrow> sys \<Rightarrow> outcome" where
  "set_brightness t v s =
     (if \<not> (0 \<le> v \<and> v \<le> 100) then Raised (ValueError ''value must be between 0 and 100'') s
      else send t (PyInt 0x04) (PyList [PyInt (brightness_byte v)]) s)"

definition set_rgb :: "tid \<Rightarrow> int \<Rightarrow> int \<Rightarrow> int \<Rightarrow> sys \<Rightarrow> outcome" where
  "set_rgb t r g b s = send t (PyInt 0x05) (PyList [PyInt 0x02, PyInt r, PyInt g, PyInt b]) s"

definition disconnect :: "tid \<Rightarrow> bool \<Rightarrow> sys \<Rightarrow> outcome" where
  "disconnect t turn_off_first s =
     (if turn_off_first then
        bind_outcome (set_brightness t 100 (s\<lparr>blocking := True\<rparr>)) (\<lambda>s1.
        bind_outcome (turn_off t s1) (\<lambda>s2.
          Done (cleanup s2)))
      else Done (cleanup s))"

section \<open>The worker thread\<close>

text \<open>
  \<^verbatim>\<open>_BLEThread.work\<close> (source lines 27--51), cut at the points where another thread can run or
  the outside world decides: one event per step, enabled at one value of \<open>wpc\<close>.
  \<^item> \<open>W_start t\<close>: \<^verbatim>\<open>prev_time = time()\<close>, the clock reading \<open>t\<close>; then the connection attempt
    of \<^verbatim>\<open>async with self.client\<close> begins.
  \<^item> \<open>W_connected\<close>: the attempt succeeds; \<^verbatim>\<open>self.ready = True\<close>.
  \<^item> \<open>W_connect_failed\<close>: the attempt raises; the exception leaves \<^verbatim>\<open>work\<close> and \<^verbatim>\<open>run\<close>, the
    thread is dead.
  \<^item> \<open>W_check_stop\<close>: the test of \<^verbatim>\<open>while not self.stop\<close>; leaving the loop leaves the
    \<^verbatim>\<open>async with\<close> block, which closes the connection.
  \<^item> \<open>W_poll t\<close>: \<^verbatim>\<open>self.queue.get_nowait()\<close> and the one call of \<^verbatim>\<open>time()\<close> that follows on
    either path (reading \<open>t\<close>): with an item, \<^verbatim>\<open>prev_time = time()\<close>; on \<^verbatim>\<open>Empty\<close>, the test
    \<^verbatim>\<open>time() > prev_time + 3\<close>, whose right-hand side is a binary64 sum, and, when it holds,
    the construction of the keep-alive frame.
  \<^item> \<open>W_written t\<close>: the awaited \<^verbatim>\<open>write_gatt_char\<close> returns; after a keep-alive,
    \<^verbatim>\<open>prev_time = time()\<close> with reading \<open>t\<close>.
  \<^item> \<open>W_write_failed\<close>: the awaited write raises; the thread is dead, the connection closed.
  \<^item> \<open>W_task_done\<close>: \<^verbatim>\<open>self.queue.task_done()\<close>, which raises \<^verbatim>\<open>ValueError\<close> when
    \<^verbatim>\<open>unfinished_tasks\<close> is already zero.
\<close>

datatype wevent =
    W_start time
  | W_connected
  | W_connect_failed
  | W_check_stop
  | W_poll time
  | W_written time
  | W_write_failed
  | W_task_done

fun work_step :: "wevent \<Rightarrow> sys \<Rightarrow> sys option" where
  "work_step (W_start t) s =
     (case wpc s of Starting \<Rightarrow> Some (s\<lparr>prev_time := t, wpc := Connecting\<rparr>) | _ \<Rightarrow> None)"
| "work_step W_connected s =
     (case wpc s of
        Connecting \<Rightarrow> Some (s\<lparr>ready := True, connected := True, wpc := LoopHead\<rparr>)
      | _ \<Rightarrow> None)"
| "work_step W_connect_failed s =
     (case wpc s of Connecting \<Rightarrow> Some (s\<lparr>wpc := Crashed\<rparr>) | _ \<Rightarrow> None)"
| "work_step W_check_stop s =
     (case wpc s of
        LoopHead \<Rightarrow>
          if stop s then Some (s\<lparr>wpc := Exited, connected := False\<rparr>)
          else Some (s\<lparr>wpc := Polling\<rparr>)
      | _ \<Rightarrow> None)"
| "work_step (W_poll t) s =
     (case wpc s of
        Polling \<Rightarrow>
          (case queue s of
             f # q \<Rightarrow> Some (s\<lparr>queue := q, prev_time := t, wpc := Sending f\<rparr>)
           | [] \<Rightarrow>
               if py_fadd (prev_time s) 3 < t then
                 (case keepalive_frame of
                    Inr f \<Rightarrow> Some (s\<lparr>wpc := KeepAlive f\<rparr>)
                  | Inl e \<Rightarrow> Some (s\<lparr>wpc := Crashed, connected := False\<rparr>))
               else Some (s\<lparr>wpc := LoopHead\<rparr>))
      | _ \<Rightarrow> None)"
| "work_step (W_written t) s =
     (case wpc s of
        Sending f \<Rightarrow> Some (s\<lparr>link := link s @ [f], wpc := Sent\<rparr>)
      | KeepAlive f \<Rightarrow> Some (s\<lparr>link := link s @ [f], prev_time := t, wpc := LoopHead\<rparr>)
      | _ \<Rightarrow> None)"
| "work_step W_write_failed s =
     (case wpc s of
        Sending f \<Rightarrow> Some (s\<lparr>wpc := Crashed, connected := False\<rparr>)
      | KeepAlive f \<Rightarrow> Some (s\<lparr>wpc := Crashed, connected := False\<rparr>)
      | _ \<Rightarrow> None)"
| "work_step W_task_done s =
     (case wpc s of
        Sent \<Rightarrow>
          if unfinished s = 0 then Some (s\<lparr>wpc := Crashed, connected := False\<rparr>)
          else Some (s\<lparr>unfinished := unfinished s - 1, wpc := LoopHead\<rparr>)
      | _ \<Rightarrow> None)"

section \<open>Controller, caller threads and worker together\<close>

text \<open>
  The calls a thread can make on a constructed controller: the public methods, \<^verbatim>\<open>_send\<close>
  itself, an assignment to the user-editable attribute \<^verbatim>\<open>blocking\<close>, and a direct
  \<^verbatim>\<open>_queue.join()\<close> (the spec's \<^verbatim>\<open>waitUntilDrained\<close>).
\<close>

datatype api_call =
    Send pyval pyval
  | Turn_on
  | Turn_off
  | Set_brightness int
  | Set_rgb int int int
  | Disconnect bool
  | Set_blocking bool
  | Join

fun api :: "tid \<Rightarrow> api_call \<Rightarrow> sys \<Rightarrow> outcome" where
  "api t (Send cmd payload) s = send t cmd payload s"
| "api t Turn_on s = turn_on t s"
| "api t Turn_off s = turn_off t s"
| "api t (Set_brightness v) s = set_brightness t v s"
| "api t (Set_rgb r g b) s = set_rgb t r g b s"
| "api t (Disconnect turn_off_first) s = disconnect t turn_off_first s"
| "api t (Set_blocking b) s = Done (s\<lparr>blocking := b\<rparr>)"
| "api t Join s = queue_join s"

text \<open>
  \<^verbatim>\<open>BLEController.__init__(mac, block, verbose)\<close> (source lines 64--81) creates the queue and the
  worker, starts the worker thread and, when \<^verbatim>\<open>block\<close> is true, spins in
  \<^verbatim>\<open>while not self._worker.ready: pass\<close>; its last statement sets \<^verbatim>\<open>self.blocking = True\<close>.
  A configuration holds the shared state, whether the constructor has returned
  (\<open>Constructing block\<close> until then), and for each caller thread blocked in \<^verbatim>\<open>join\<close> the rest of
  its call.  The address \<^verbatim>\<open>mac\<close> only selects the device and \<^verbatim>\<open>verbose\<close> only prints; whether the
  connection succeeds is the worker event \<open>W_connected\<close> or \<open>W_connect_failed\<close>.
\<close>

datatype phase = Constructing bool | Constructed

record config =
  shared :: sys
  phase :: phase
  waiting :: "tid \<Rightarrow> (sys \<Rightarrow> outcome) option"

definition BLEController_init :: "bool \<Rightarrow> config" where
  "BLEController_init block =
     \<lparr>shared = \<lparr>queue = [], unfinished = 0, blocking = False, stop = False, ready = False,
                prev_time = 0, wpc = Starting, connected = False, link = [], enq_log = []\<rparr>,
      phase = Constructing block,
      waiting = (\<lambda>t. None)\<rparr>"

text \<open>What a call's outcome means for the calling thread \<open>t\<close>.\<close>

primrec settle :: "tid \<Rightarrow> outcome \<Rightarrow> config \<Rightarrow> config" where
  "settle t (Done s) c = c\<lparr>shared := s, waiting := (waiting c)(t := None)\<rparr>"
| "settle t (Raised e s) c = c\<lparr>shared := s, waiting := (waiting c)(t := None)\<rparr>"
| "settle t (Wait s k) c = c\<lparr>shared := s, waiting := (waiting c)(t := Some k)\<rparr>"

text \<open>
  The events of the whole system.  \<open>Call t a\<close>: thread \<open>t\<close>, not blocked, calls \<open>a\<close> on the
  constructed controller.  \<open>Resume t\<close>: the \<^verbatim>\<open>join\<close> in which \<open>t\<close> is blocked returns, which
  \<^verbatim>\<open>Queue.join\<close> does only when \<^verbatim>\<open>unfinished_tasks\<close> is zero.  \<open>Init_step\<close>: one evaluation of
  the constructor's loop condition (with \<^verbatim>\<open>block\<close> false, the constructor goes straight to its
  last statement).  \<open>Worker w\<close>: a step of the worker thread.  \<open>None\<close> means that the event
  cannot happen in that configuration.

  Each event is one atomic step, and a run is any sequence of events, so every interleaving
  of the caller threads with the worker is a run.  \<^verbatim>\<open>Queue.put\<close>, \<^verbatim>\<open>get_nowait\<close>, \<^verbatim>\<open>task_done\<close> and
  the test inside \<^verbatim>\<open>join\<close> are atomic in Python as well (they hold the queue's lock).  A call
  is taken as one step up to the point where it blocks: the checks and the frame construction
  of \<^verbatim>\<open>_send\<close> touch no shared state, and its \<^verbatim>\<open>put\<close> is its only write.
\<close>

datatype event =
    Call tid api_call
  | Resume tid
  | Init_step
  | Worker wevent

fun step :: "event \<Rightarrow> config \<Rightarrow> config option" where
  "step (Call t a) c =
     (if phase c = Constructed \<and> waiting c t = None then Some (settle t (api t a (shared c)) c)
      else None)"
| "step (Resume t) c =
     (case waiting c t of
        None \<Rightarrow> None
      | Some k \<Rightarrow> if unfinished (shared c) = 0 then Some (settle t (k (shared c)) c) else None)"
| "step Init_step c =
     (case phase c of
        Constructed \<Rightarrow> None
      | Constructing block \<Rightarrow>
          if block \<and> \<not> ready (shared c) then Some c
          else Some (c\<lparr>shared := (shared c)\<lparr>blocking := True\<rparr>, phase := Constructed\<rparr>))"
| "step (Worker w) c = map_option (\<lambda>s. c\<lparr>shared := s\<rparr>) (work_step w (shared c))"

fun run :: "event list \<Rightarrow> config \<Rightarrow> config option" where
  "run [] c = Some c"
| "run (e # es) c = (case step e c of None \<Rightarrow> None | Some c' \<Rightarrow> run es c')"

section \<open>The wire format, for comparison\<close>

text \<open>
  The byte-wise exclusive or of a sequence of bytes, and the layout the frames are compared
  with: a 20-byte frame whose bytes 0 and 1 are a prefix and a command code, bytes 2 to 18 the
  payload followed by zero bytes, and byte 19 the exclusive or of bytes 0 to 18.
\<close>

definition xor_bytes :: "byte list \<Rightarrow> byte" where
  "xor_bytes bs = fold (\<lambda>b a. a XOR b) bs 0"

definition wire_frame :: "byte \<Rightarrow> byte \<Rightarrow> byte list \<Rightarrow> frame" where
  "wire_frame pfx code body =
     [pfx, code] @ body @ replicate (17 - length body) 0 @
     [xor_bytes ([pfx, code] @ body @ replicate (17 - length body) 0)]"

abbreviation frame_of :: "int \<Rightarrow> byte list \<Rightarrow> frame" where
  "frame_of c body \<equiv> wire_frame 0x33 (word_of_int c) body"

section \<open>Invariants\<close>

text \<open>
  The frames on the link that are not the keep-alive frame, and the invariant that relates
  the three places a command frame can be: already written to the link, taken from the queue
  by the worker and not yet written (or lost because the write raised), or still in the queue.
  \<open>fifo_inv\<close> also relates \<^verbatim>\<open>unfinished_tasks\<close> to them; \<open>shape_inv\<close> says what the enqueued
  frames and the worker's keep-alive frame look like; \<open>conn_inv\<close> relates the flags to the
  worker's position.  A predicate holds for a call's outcome when it holds for every shared
  state the call leaves behind, whatever state (satisfying it) the call is resumed on.
\<close>

definition cmd_frames :: "frame list \<Rightarrow> frame list" where
  "cmd_frames fs = filter (\<lambda>f. Inr f \<noteq> keepalive_frame) fs"

fun is_open :: "worker_pc \<Rightarrow> bool" where
  "is_open Starting = False"
| "is_open Connecting = False"
| "is_open Exited = False"
| "is_open Crashed = False"
| "is_open pc = True"

fun mid_ok :: "worker_pc \<Rightarrow> frame list \<Rightarrow> bool" where
  "mid_ok (Sending f) mid = (mid = [f])"
| "mid_ok Crashed mid = (length mid \<le> 1)"
| "mid_ok pc mid = (mid = [])"

definition fifo_inv :: "sys \<Rightarrow> bool" where
  "fifo_inv s \<longleftrightarrow>
     (\<exists>mid. cmd_frames (link s) @ mid @ queue s = map snd (enq_log s)
        \<and> mid_ok (wpc s) mid
        \<and> unfinished s = length (queue s) + length mid + (if wpc s = Sent then 1 else 0))"

definition shape_inv :: "sys \<Rightarrow> bool" where
  "shape_inv s \<longleftrightarrow>
     list_all (\<lambda>f. length f = 20 \<and> f ! 0 = 0x33) (map snd (enq_log s))
   \<and> (\<forall>f. wpc s = KeepAlive f \<longrightarrow> Inr f = keepalive_frame)"

definition conn_inv :: "sys \<Rightarrow> bool" where
  "conn_inv s \<longleftrightarrow>
     connected s = is_open (wpc s)
   \<and> (is_open (wpc s) \<or> wpc s = Exited \<longrightarrow> ready s)
   \<and> (wpc s = Starting \<or> wpc s = Connecting \<longrightarrow> \<not> ready s)
   \<and> (\<not> ready s \<longrightarrow> link s = [])"

definition sys_inv :: "sys \<Rightarrow> bool" where
  "sys_inv s \<longleftrightarrow> fifo_inv s \<and> shape_inv s \<and> conn_inv s"

primrec inv_out :: "(sys \<Rightarrow> bool) \<Rightarrow> outcome \<Rightarrow> bool" where
  "inv_out P (Done s) = P s"
| "inv_out P (Raised e s) = P s"
| "inv_out P (Wait s k) = (P s \<and> (\<forall>s'. P s' \<longrightarrow> inv_out P (k s')))"

definition api_stable :: "(sys \<Rightarrow> bool) \<Rightarrow> bool" where
  "api_stable P \<longleftrightarrow>
     (\<forall>s t cmd payload f. P s \<longrightarrow> send_frame cmd payload = Inr f \<longrightarrow> P (queue_put t f s))
   \<and> (\<forall>s b. P s \<longrightarrow> P (s\<lparr>blocking := b\<rparr>))
   \<and> (\<forall>s. P s \<longrightarrow> P (stop_work s))"

definition work_stable :: "(sys \<Rightarrow> bool) \<Rightarrow> bool" where
  "work_stable P \<longleftrightarrow> (\<forall>w s s'. P s \<longrightarrow> work_step w s = Some s' \<longrightarrow> P s')"

text \<open>
  The rest of a blocked call is well behaved when it keeps every predicate that the
  controller's writes to the shared state keep, and so is all that follows it.
\<close>

definition good_cont :: "(sys \<Rightarrow> outcome) \<Rightarrow> bool" where
  "good_cont k \<longleftrightarrow> (\<forall>P. api_stable P \<longrightarrow> (\<forall>s. P s \<longrightarrow> inv_out P (k s)))"

primrec hgood :: "outcome \<Rightarrow> bool" where
  "hgood (Done s) = True"
| "hgood (Raised e s) = True"
| "hgood (Wait s k) = (good_cont k \<and> (\<forall>s'. hgood (k s')))"

definition conts_ok :: "config \<Rightarrow> bool" where
  "conts_ok c \<longleftrightarrow> (\<forall>t k. waiting c t = Some k \<longrightarrow> good_cont k \<and> (\<forall>s. hgood (k s)))"

text \<open>
  Two invariants of configurations: what the constructor's phase says about \<^verbatim>\<open>ready\<close>, and what
  holds for ever once the connection attempt has failed.
\<close>

definition phase_inv :: "bool \<Rightarrow> config \<Rightarrow> bool" where
  "phase_inv block c \<longleftrightarrow>
     conts_ok c \<and>
     (phase c = Constructing block \<or> (phase c = Constructed \<and> (block \<longrightarrow> ready (shared c))))"

definition dead_inv :: "bool \<Rightarrow> config \<Rightarrow> bool" where
  "dead_inv block c \<longleftrightarrow>
     conts_ok c \<and> wpc (shared c) = Crashed \<and> \<not> ready (shared c) \<and> \<not> connected (shared c)
     \<and> link (shared c) = [] \<and> (block \<longrightarrow> phase c = Constructing True)"

section \<open>Traces used as examples\<close>

definition demo_trace :: "event list" where
  "demo_trace =
     [Worker (W_start 0), Worker W_connected, Init_step, Call 0 (Set_blocking False),
      Call 0 Turn_on, Call 1 Turn_off, Worker W_check_stop, Worker (W_poll 1),
      Worker (W_written 1)]"

definition sending_trace :: "event list" where
  "sending_trace =
     [Worker (W_start 0), Worker W_connected, Init_step, Call 0 Turn_on,
      Worker W_check_stop, Worker (W_poll 1)]"

definition idle_trace :: "event list" where
  "idle_trace =
     [Worker (W_start 0), Worker W_connected, Init_step, Worker W_check_stop, Worker (W_poll 4)]"

definition ready_trace :: "event list" where
  "ready_trace = [Worker (W_start 0), Worker W_connected, Init_step]"

definition transmit_trace :: "event list" where
  "transmit_trace =
     [Worker W_check_stop, Worker (W_poll 1), Worker (W_written 1), Worker W_task_done]"

definition boundary_trace :: "event list" where
  "boundary_trace =
     [Worker (W_start 0), Worker W_connected, Init_step,
      Call 0 Turn_on,
      Worker W_check_stop, Worker (W_poll 10), Worker (W_written 10), Worker W_task_done,
      Resume 0,
      Worker W_check_stop, Worker (W_poll 13),
      Call 0 Turn_off,
      Worker W_check_stop, Worker (W_poll 13), Worker (W_written 13), Worker W_task_done,
      Resume 0]"

definition queued_trace :: "event list" where
  "queued_trace = [Worker (W_start 0), Worker W_connected, Init_step, Call 0 Turn_on]"

text \<open>A worker started when the clock reads the binary64 number nearest to 0.1.\<close>

definition rounding_trace :: "event list" where
  "rounding_trace =
     [Worker (W_start (3602879701896397 / 36028797018963968)), Worker W_connected, Init_step]"

definition stopped_trace :: "event list" where
  "stopped_trace =
     [Worker (W_start 0), Worker W_connected, Init_step, Call 0 (Set_blocking False),
      Call 0 (Disconnect False), Worker W_check_stop]"

definition stranded_trace :: "event list" where
  "stranded_trace =
     [Worker (W_start 0), Worker W_connected, Init_step,
      Call 0 (Disconnect False), Worker W_check_stop, Call 0 Turn_on]"

definition failed_trace :: "event list" where
  "failed_trace = [Worker (W_start 0)]"

section \<open>Frames built by the send primitive\<close>

lemma bytes_of_ints_replicate0: "bytes_of_ints (replicate n 0) = Inr (replicate n 0)"
  by (simp add: bytes_of_ints_def list_all_iff)

lemma and255_take_bit: "(x::int) AND 255 = take_bit 8 x"
proof -
  have "(255::int) = mask 8" by (simp add: mask_eq_exp_minus_1)
  then show ?thesis by (simp add: take_bit_eq_mask)
qed

lemma and255_range: "0 \<le> (x::int) AND 255 \<and> x AND 255 < 256"
  unfolding and255_take_bit using take_bit_int_less_exp [of 8 x] by simp

lemma word_of_int_and255: "(word_of_int (x AND 255) :: byte) = word_of_int x"
  unfolding and255_take_bit
  by (simp add: word_of_int_eq_iff)

lemma uint_word_of_int_byte: "uint (word_of_int x :: byte) = x mod 256"
  by (simp add: uint_word_of_int)

lemma bytes_of_ints_masked: "bytes_of_ints [x AND 255] = Inr [word_of_int x]"
  using and255_range [of x] by (simp add: bytes_of_ints_def word_of_int_and255)

lemma bytes_of_ints_header: "bytes_of_ints [51, c AND 255] = Inr [51, word_of_int c]"
  using and255_range [of c] by (simp add: bytes_of_ints_def word_of_int_and255)

lemma word_of_int_fold_xor:
  "(word_of_int (fold (\<lambda>b c. c XOR uint b) xs a) :: byte) = fold (\<lambda>b c. c XOR b) xs (word_of_int a)"
  by (induction xs arbitrary: a) (simp_all add: of_int_xor_eq)

lemma checksum_byte: "bytes_of_ints [fold (\<lambda>b c. c XOR uint b) xs 0 AND 255] = Inr [xor_bytes xs]"
  by (simp add: bytes_of_ints_masked word_of_int_fold_xor xor_bytes_def)

lemma pad_checksum_eq:
  assumes "length fr0 \<le> 19"
  shows "pad_checksum fr0 =
           Inr (fr0 @ replicate (19 - length fr0) 0 @ [xor_bytes (fr0 @ replicate (19 - length fr0) 0)])"
proof -
  have n: "nat (19 - int (length fr0)) = 19 - length fr0" using assms by simp
  show ?thesis
    unfolding pad_checksum_def n bytes_of_ints_replicate0 bind_err_def Let_def
    by (simp only: sum.case checksum_byte append_assoc)
qed

lemma bytes_of_ints_uint: "bytes_of_ints (map uint (bs :: byte list)) = Inr bs"
proof -
  have "list_all (\<lambda>n. 0 \<le> n \<and> n < 256) (map uint bs)"
    using uint_lt2p [where 'a = 8] by (simp add: list_all_iff) 
  then show ?thesis by (simp add: bytes_of_ints_def comp_def)
qed

lemma bytes_of_ints_length: "bytes_of_ints ns = Inr bs \<Longrightarrow> length bs = length ns"
  by (auto simp: bytes_of_ints_def split: if_splits)

lemma payload_bytes_length: "payload_bytes p = Inr body \<Longrightarrow> length body = payload_len p"
  by (cases p) (auto dest: bytes_of_ints_length)

lemma those_map_PyInt: "those (map as_int (map PyInt ns)) = Some ns"
  by (induction ns) simp_all

lemma send_frame_ok:
  assumes "as_int cmd = Some c" "check_payload payload = Some p" "payload_len p \<le> 17"
    and "payload_bytes p = Inr body"
  shows "send_frame cmd payload = Inr (frame_of c body)"
proof -
  have len: "length body \<le> 17" using assms payload_bytes_length by simp
  then have "length ([51, word_of_int c :: byte] @ body) \<le> 19" by simp
  from pad_checksum_eq [OF this] len
  have "pad_checksum ([51, word_of_int c] @ body) = Inr (frame_of c body)"
    by (simp add: wire_frame_def)
  with assms show ?thesis
    by (simp add: send_frame_def bytes_of_ints_header bind_err_def)
qed

lemma length_frame_of: "length body \<le> 17 \<Longrightarrow> length (frame_of c body) = 20"
  by (simp add: wire_frame_def)

lemma send_frame_cases:
  "send_frame cmd payload = Inr f \<Longrightarrow>
     \<exists>c p body. as_int cmd = Some c \<and> check_payload payload = Some p \<and> payload_len p \<le> 17 \<and>
        payload_bytes p = Inr body \<and> f = frame_of c body"
proof -
  assume a: "send_frame cmd payload = Inr f"
  then obtain c where c: "as_int cmd = Some c"
    by (auto simp: send_frame_def split: option.splits)
  from a c obtain p where p: "check_payload payload = Some p"
    by (auto simp: send_frame_def split: option.splits)
  from a c p have l: "payload_len p \<le> 17"
    by (auto simp: send_frame_def split: if_splits)
  from a c p l obtain body where b: "payload_bytes p = Inr body"
    by (cases "payload_bytes p") (auto simp: send_frame_def bind_err_def bytes_of_ints_header)
  from send_frame_ok [OF c p l b] a have "f = frame_of c body" by simp
  with c p l b show ?thesis by blast
qed

lemma send_frame_shape:
  assumes "send_frame cmd payload = Inr f"
  shows "length f = 20 \<and> f ! 0 = 0x33"
proof -
  from send_frame_cases [OF assms] obtain c p body where
    *: "payload_len p \<le> 17" "payload_bytes p = Inr body" "f = frame_of c body" by blast
  then have "length body \<le> 17" using payload_bytes_length by simp
  with * show ?thesis by (simp add: wire_frame_def)
qed

lemma keepalive_frame_eq:
  "keepalive_frame = Inr [0xAA, 0x01, 0, 0, 0, 0, 0, 0, 0, 0, 0, 0, 0, 0, 0, 0, 0, 0, 0, 0xAB]"
  by code_simp

lemma uint_xor_bytes: "uint (xor_bytes xs) = fold (\<lambda>b a. a XOR uint b) xs 0 AND 0xFF"
proof -
  have "xor_bytes xs = word_of_int (fold (\<lambda>b a. a XOR uint b) xs 0)"
    by (simp add: word_of_int_fold_xor xor_bytes_def)
  then show ?thesis
    by (simp add: uint_word_of_int and255_take_bit take_bit_eq_mod)
qed

lemma send_state:
  "send_frame cmd payload = Inr f \<Longrightarrow> state_of (send t cmd payload s) = queue_put t f s"
  by (simp add: send_def queue_join_def Let_def)

lemma send_raises:
  "send_frame cmd payload = Inl e \<Longrightarrow> send t cmd payload s = Raised e s"
  by (simp add: send_def)

lemma check_payload_uints:
  "check_payload (PyList (map (\<lambda>b. PyInt (uint b)) p)) = Some (Inr (map uint p))"
proof -
  have "map (\<lambda>b. PyInt (uint b)) p = map PyInt (map uint p)" by simp
  then show ?thesis by (simp only: check_payload.simps those_map_PyInt option.map)
qed

text \<open>
  Claim C1.  For every command byte \<open>c\<close> (an integer from 0 to 255) and every payload of at
  most 17 bytes, given as a \<^verbatim>\<open>bytes\<close> object or as the list of its integers, \<^verbatim>\<open>_send\<close> builds
  and enqueues a frame of exactly 20 bytes: byte 0 is \<open>0x33\<close>, byte 1 is the command code,
  the payload follows from byte 2 on, the bytes after it up to byte 18 are zero, and byte 19
  is the exclusive or of bytes 0 to 18, masked to 8 bits.
\<close>

theorem C1_send_frame_layout:
  assumes "0 \<le> c" "c \<le> 255" "length p \<le> 17"
    and "payload = PyBytes p \<or> payload = PyList (map (\<lambda>b. PyInt (uint b)) p)"
  shows "\<exists>f. send_frame (PyInt c) payload = Inr f
           \<and> state_of (send t (PyInt c) payload s) = queue_put t f s
           \<and> length f = 20
           \<and> uint (f ! 0) = 0x33
           \<and> uint (f ! 1) = c
           \<and> take (length p) (drop 2 f) = p
           \<and> drop (2 + length p) (take 19 f) = replicate (17 - length p) 0
           \<and> uint (f ! 19) = fold (\<lambda>b a. a XOR uint b) (take 19 f) 0 AND 0xFF"
proof -
  let ?f = "frame_of c p"
  let ?first = "[0x33, word_of_int c] @ p @ replicate (17 - length p) (0::byte)"
  have sf: "send_frame (PyInt c) payload = Inr ?f"
  proof -
    have "\<exists>q. check_payload payload = Some q \<and> payload_len q = length p \<and>
        payload_bytes q = Inr p"
    proof (cases "payload = PyBytes p")
      case True
      then show ?thesis by simp
    next
      case False
      with assms(4) have "payload = PyList (map (\<lambda>b. PyInt (uint b)) p)" by blast
      then have "check_payload payload = Some (Inr (map uint p))"
        by (simp only: check_payload_uints)
      then show ?thesis by (simp add: bytes_of_ints_uint)
    qed
    then obtain q where q: "check_payload payload = Some q" "payload_len q = length p"
        "payload_bytes q = Inr p" by blast
    then show ?thesis using assms(3) by (intro send_frame_ok) simp_all
  qed
  have f: "?f = ?first @ [xor_bytes ?first]" by (simp add: wire_frame_def)
  have l19: "length ?first = 19" using assms(3) by simp
  have t19: "take 19 ?f = ?first" unfolding f using l19 by simp
  have n19: "?f ! 19 = xor_bytes ?first" unfolding f using l19 by (metis nth_append_length)
  have c: "uint (word_of_int c :: byte) = c" using assms(1,2) by (simp add: uint_word_of_int)
  have "length ?f = 20" using assms(3) by (simp add: wire_frame_def)
  moreover have "uint (?f ! 0) = 0x33" by (simp add: wire_frame_def)
  moreover have "uint (?f ! 1) = c" using c by (simp add: wire_frame_def)
  moreover have "take (length p) (drop 2 ?f) = p" by (simp add: wire_frame_def)
  moreover have "drop (2 + length p) (take 19 ?f) = replicate (17 - length p) 0"
    unfolding t19 by simp
  moreover have "uint (?f ! 19) = fold (\<lambda>b a. a XOR uint b) (take 19 ?f) 0 AND 0xFF"
    unfolding t19 n19 by (rule uint_xor_bytes)
  ultimately show ?thesis using sf send_state [OF sf] by blast
qed

theorem C1_witness:
  "(0::int) \<le> 5 \<and> (5::int) \<le> 255 \<and> length [2, 255, 0, 128 :: byte] \<le> 17 \<and>
   (\<exists>f. send_frame (PyInt 5) (PyBytes [2, 255, 0, 128]) = Inr f
      \<and> state_of (send 0 (PyInt 5) (PyBytes [2, 255, 0, 128]) (shared (BLEController_init True)))
          = queue_put 0 f (shared (BLEController_init True))
      \<and> length f = 20
      \<and> uint (f ! 0) = 0x33
      \<and> uint (f ! 1) = 5
      \<and> take (length [2, 255, 0, 128 :: byte]) (drop 2 f) = [2, 255, 0, 128]
      \<and> drop (2 + length [2, 255, 0, 128 :: byte]) (take 19 f)
          = replicate (17 - length [2, 255, 0, 128 :: byte]) 0
      \<and> uint (f ! 19) = fold (\<lambda>b a. a XOR uint b) (take 19 f) 0 AND 0xFF)"
  using C1_send_frame_layout [of 5 "[2, 255, 0, 128]" "PyBytes [2, 255, 0, 128]" 0
      "shared (BLEController_init True)"]
  by simp

lemma wire_frame_length: "length body \<le> 17 \<Longrightarrow> length (wire_frame p c body) = 20"
  by (simp add: wire_frame_def)

lemma wire_frame_take19:
  "length body \<le> 17 \<Longrightarrow>
     take 19 (wire_frame p c body) = [p, c] @ body @ replicate (17 - length body) 0"
  by (simp add: wire_frame_def)

lemma wire_frame_last:
  assumes "length body \<le> 17"
  shows "wire_frame p c body ! 19 = xor_bytes (take 19 (wire_frame p c body))"
proof -
  let ?first = "[p, c] @ body @ replicate (17 - length body) 0"
  have l: "length ?first = 19" using assms by simp
  have "wire_frame p c body = ?first @ [xor_bytes ?first]" by (simp add: wire_frame_def)
  then have "wire_frame p c body ! 19 = xor_bytes ?first" using l by (metis nth_append_length)
  then show ?thesis using wire_frame_take19 [OF assms] by simp
qed

lemma send_frame_ints:
  assumes "list_all (\<lambda>n. 0 \<le> n \<and> n < 256) ns" "length ns \<le> 17"
  shows "send_frame (PyInt c) (PyList (map PyInt ns)) = Inr (frame_of c (map word_of_int ns))"
proof -
  have 1: "check_payload (PyList (map PyInt ns)) = Some (Inr ns)"
    by (simp only: check_payload.simps those_map_PyInt option.map)
  have 2: "payload_bytes (Inr ns) = Inr (map word_of_int ns)"
    using assms(1) by (simp add: bytes_of_ints_def)
  show ?thesis by (rule send_frame_ok [OF _ 1 _ 2]) (simp_all add: assms(2))
qed

lemma send_frame_ints_bad:
  assumes "\<not> list_all (\<lambda>n. 0 \<le> n \<and> n < 256) ns" "length ns \<le> 17"
  shows "send_frame (PyInt c) (PyList (map PyInt ns)) = Inl (ValueError ''bytes must be in range(0, 256)'')"
proof -
  have 1: "check_payload (PyList (map PyInt ns)) = Some (Inr ns)"
    by (simp only: check_payload.simps those_map_PyInt option.map)
  have 2: "payload_bytes (Inr ns) = Inl (ValueError ''bytes must be in range(0, 256)'')"
    using assms(1) by (simp add: bytes_of_ints_def)
  have 3: "\<not> 17 < payload_len (Inr ns)" using assms(2) by simp
  show ?thesis
    unfolding send_frame_def as_int.simps option.case 1 bytes_of_ints_header bind_err_def 2
    using 3 by simp
qed

section \<open>Failures of the send primitive\<close>

text \<open>
  Claim C2, as amended.  \<^verbatim>\<open>_send\<close> raises \<^verbatim>\<open>ValueError('Payload too long')\<close> for every payload
  longer than 17 (the command being an integer and the payload of an accepted type), and
  \<^verbatim>\<open>ValueError('Invalid command')\<close> exactly when the command is not an instance of \<^verbatim>\<open>int\<close>.
  An integer command outside 0..255 is not an error: the source masks it with \<^verbatim>\<open>cmd & 0xFF\<close>,
  so the frame carries the command modulo 256 and is enqueued.  Whenever \<^verbatim>\<open>_send\<close> raises,
  the shared state, and with it the queue, is unchanged; whenever it builds a frame, the frame
  has 20 bytes.
\<close>

theorem C2_send_failures:
  "(as_int cmd = Some c \<and> check_payload payload = Some p \<and> 17 < payload_len p \<longrightarrow>
      send t cmd payload s = Raised (ValueError ''Payload too long'') s)
   \<and> (as_int cmd = None \<longrightarrow> send t cmd payload s = Raised (ValueError ''Invalid command'') s)
   \<and> (length bs \<le> 17 \<longrightarrow>
        send_frame (PyInt n) (PyBytes bs) = Inr (wire_frame 0x33 (word_of_int n) bs)
        \<and> uint (word_of_int n :: byte) = n mod 256
        \<and> state_of (send t (PyInt n) (PyBytes bs) s)
            = queue_put t (wire_frame 0x33 (word_of_int n) bs) s)
   \<and> (\<forall>e s'. send t cmd payload s = Raised e s' \<longrightarrow> s' = s)
   \<and> (\<forall>f. send_frame cmd payload = Inr f \<longrightarrow> length f = 20)"
proof -
  have 1: "as_int cmd = Some c \<and> check_payload payload = Some p \<and> 17 < payload_len p \<longrightarrow>
      send t cmd payload s = Raised (ValueError ''Payload too long'') s"
    by (simp add: send_def send_frame_def)
  have 2: "as_int cmd = None \<longrightarrow> send t cmd payload s = Raised (ValueError ''Invalid command'') s"
    by (simp add: send_def send_frame_def)
  have 3: "length bs \<le> 17 \<longrightarrow>
        send_frame (PyInt n) (PyBytes bs) = Inr (wire_frame 0x33 (word_of_int n) bs)
        \<and> uint (word_of_int n :: byte) = n mod 256
        \<and> state_of (send t (PyInt n) (PyBytes bs) s)
            = queue_put t (wire_frame 0x33 (word_of_int n) bs) s"
  proof
    assume l: "length bs \<le> 17"
    have sf: "send_frame (PyInt n) (PyBytes bs) = Inr (wire_frame 0x33 (word_of_int n) bs)"
      by (rule send_frame_ok [where p = "Inl bs"]) (simp_all add: l)
    show "send_frame (PyInt n) (PyBytes bs) = Inr (wire_frame 0x33 (word_of_int n) bs)
        \<and> uint (word_of_int n :: byte) = n mod 256
        \<and> state_of (send t (PyInt n) (PyBytes bs) s)
            = queue_put t (wire_frame 0x33 (word_of_int n) bs) s"
      using sf send_state [OF sf] by (simp add: uint_word_of_int_byte)
  qed
  have 4: "\<forall>e s'. send t cmd payload s = Raised e s' \<longrightarrow> s' = s"
    by (cases "send_frame cmd payload") (auto simp: send_def queue_join_def Let_def)
  have 5: "\<forall>f. send_frame cmd payload = Inr f \<longrightarrow> length f = 20"
    using send_frame_shape by blast
  from 1 2 3 4 5 show ?thesis by blast
qed

theorem C2_witness:
  "send 0 (PyInt 1) (PyBytes (replicate 18 0)) (shared (BLEController_init True))
     = Raised (ValueError ''Payload too long'') (shared (BLEController_init True))
   \<and> send 0 (PyStr ''5'') (PyList []) (shared (BLEController_init True))
     = Raised (ValueError ''Invalid command'') (shared (BLEController_init True))
   \<and> send_frame (PyInt 256) (PyBytes []) = Inr (wire_frame 0x33 (word_of_int 256) [])
   \<and> uint (word_of_int 256 :: byte) = 256 mod 256
   \<and> length (wire_frame 0x33 (word_of_int 256) []) = 20"
  using C2_send_failures [of "PyInt 1" 1 "PyBytes (replicate 18 0)" "Inl (replicate 18 0)" 0
      "shared (BLEController_init True)" "[]" 256]
    C2_send_failures [of "PyStr ''5''" 0 "PyList []" "Inr []" 0
      "shared (BLEController_init True)" "[]" 256]
    C2_send_failures [of "PyInt 256" 256 "PyBytes []" "Inl []" 0
      "shared (BLEController_init True)" "[]" 256]
  by simp

text \<open>
  The claim as stated fails: on a freshly constructed controller \<^verbatim>\<open>_send(256, [])\<close> does not
  raise; it enqueues the frame of command \<open>0\<close> and waits for it to be sent.
\<close>

theorem C2_counterexample:
  "(case run ready_trace (BLEController_init True) of
      None \<Rightarrow> False
    | Some c \<Rightarrow>
        (case send 0 (PyInt 256) (PyList []) (shared c) of
           Wait s k \<Rightarrow>
             queue s = [[0x33, 0, 0, 0, 0, 0, 0, 0, 0, 0, 0, 0, 0, 0, 0, 0, 0, 0, 0, 0x33]]
             \<and> unfinished s = 1
         | Done s \<Rightarrow> False
         | Raised e s \<Rightarrow> False))"
  by code_simp

section \<open>Brightness and colour\<close>

lemma brightness_table_0:
  "list_all (\<lambda>v. brightness_byte v = brightness_half_even v \<and> 0 \<le> brightness_half_even v \<and>
       brightness_half_even v < 256) [0..25]"
  by code_simp

lemma brightness_table_1:
  "list_all (\<lambda>v. brightness_byte v = brightness_half_even v \<and> 0 \<le> brightness_half_even v \<and>
       brightness_half_even v < 256) [26..50]"
  by code_simp

lemma brightness_table_2:
  "list_all (\<lambda>v. brightness_byte v = brightness_half_even v \<and> 0 \<le> brightness_half_even v \<and>
       brightness_half_even v < 256) [51..75]"
  by code_simp

lemma brightness_table_3:
  "list_all (\<lambda>v. brightness_byte v = brightness_half_even v \<and> 0 \<le> brightness_half_even v \<and>
       brightness_half_even v < 256) [76..100]"
  by code_simp

lemma upto_0_100: "[0..100] = [0..25] @ [26..50] @ [51..75] @ [76..100::int]"
  by (simp add: upto_split1 [of 0 26 100] upto_split1 [of 26 51 100] upto_split1 [of 51 76 100])

lemma brightness_table:
  "list_all (\<lambda>v. brightness_byte v = brightness_half_even v \<and> 0 \<le> brightness_half_even v \<and>
       brightness_half_even v < 256) [0..100]"
  unfolding upto_0_100 list_all_append
  using brightness_table_0 brightness_table_1 brightness_table_2 brightness_table_3 by blast

lemma brightness_byte_eq:
  assumes "0 \<le> v" "v \<le> 100"
  shows "brightness_byte v = brightness_half_even v \<and> 0 \<le> brightness_half_even v \<and>
       brightness_half_even v < 256"
proof -
  have "v \<in> set [0..100]" using assms by simp
  with brightness_table show ?thesis unfolding list_all_iff by blast
qed

lemma brightness_half_even_ends: "brightness_half_even 0 = 0 \<and> brightness_half_even 100 = 255"
  by (simp add: brightness_half_even_def round_ratio_def)

lemma half_even_table:
  "list_all (\<lambda>v. brightness_half_even v
       = (if v = 30 \<or> v = 70 then spec_brightness_byte v - 1 else spec_brightness_byte v))
     [0..100]"
  by code_simp

lemma half_even_spec:
  assumes "0 \<le> v" "v \<le> 100"
  shows "brightness_half_even v
       = (if v = 30 \<or> v = 70 then spec_brightness_byte v - 1 else spec_brightness_byte v)"
proof -
  have "v \<in> set [0..100]" using assms by simp
  with half_even_table show ?thesis unfolding list_all_iff by (rule bspec)
qed

lemma send_one_byte:
  assumes "0 \<le> b" "b < 256"
  shows "send_frame (PyInt c) (PyList [PyInt b]) = Inr (frame_of c [word_of_int b])"
  using send_frame_ints [of "[b]" c] assms by simp

text \<open>
  Claim C3, as amended.  \<^verbatim>\<open>set_brightness(value)\<close> raises
  \<^verbatim>\<open>ValueError('value must be between 0 and 100')\<close> for every integer outside \<open>[0, 100]\<close>; for
  every integer in \<open>[0, 100]\<close> it sends command \<open>0x04\<close> with the single payload byte
  \<open>value / 100 * 255\<close> rounded to the nearest integer, a tie going to the even neighbour (the
  floating-point result of the source agrees with this rounding of the exact quotient).  The
  byte is the spec's \<open>round(value / 100 * 255)\<close> except at 30 and 70, where it is one less.
  0 gives payload byte \<open>0x00\<close> and 100 gives \<open>0xFF\<close>.
\<close>

theorem C3_set_brightness:
  "(\<not> (0 \<le> v \<and> v \<le> 100) \<longrightarrow>
      set_brightness t v s = Raised (ValueError ''value must be between 0 and 100'') s)
   \<and> (0 \<le> v \<and> v \<le> 100 \<longrightarrow>
        (\<exists>f. set_brightness t v s = send t (PyInt 0x04) (PyList [PyInt (brightness_half_even v)]) s
           \<and> send_frame (PyInt 0x04) (PyList [PyInt (brightness_half_even v)]) = Inr f
           \<and> state_of (set_brightness t v s) = queue_put t f s
           \<and> length f = 20
           \<and> take 19 f = [0x33, 0x04, word_of_int (brightness_half_even v)] @ replicate 16 0
           \<and> uint (f ! 2) = brightness_half_even v
           \<and> f ! 19 = xor_bytes (take 19 f))
        \<and> brightness_byte v = brightness_half_even v
        \<and> brightness_half_even v
            = (if v = 30 \<or> v = 70 then spec_brightness_byte v - 1 else spec_brightness_byte v))
   \<and> brightness_half_even 0 = 0x00 \<and> brightness_half_even 100 = 0xFF"
proof -
  have 1: "\<not> (0 \<le> v \<and> v \<le> 100) \<longrightarrow>
      set_brightness t v s = Raised (ValueError ''value must be between 0 and 100'') s"
    by (simp add: set_brightness_def)
  have 2: "0 \<le> v \<and> v \<le> 100 \<longrightarrow>
        (\<exists>f. set_brightness t v s = send t (PyInt 0x04) (PyList [PyInt (brightness_half_even v)]) s
           \<and> send_frame (PyInt 0x04) (PyList [PyInt (brightness_half_even v)]) = Inr f
           \<and> state_of (set_brightness t v s) = queue_put t f s
           \<and> length f = 20
           \<and> take 19 f = [0x33, 0x04, word_of_int (brightness_half_even v)] @ replicate 16 0
           \<and> uint (f ! 2) = brightness_half_even v
           \<and> f ! 19 = xor_bytes (take 19 f))
        \<and> brightness_byte v = brightness_half_even v
        \<and> brightness_half_even v
            = (if v = 30 \<or> v = 70 then spec_brightness_byte v - 1 else spec_brightness_byte v)"
  proof
    assume v: "0 \<le> v \<and> v \<le> 100"
    let ?b = "brightness_half_even v"
    let ?f = "wire_frame 0x33 0x04 [word_of_int ?b]"
    from v brightness_byte_eq [of v]
    have b: "brightness_byte v = ?b" "0 \<le> ?b" "?b < 256" by simp_all
    have sb: "set_brightness t v s = send t (PyInt 0x04) (PyList [PyInt ?b]) s"
      using v b(1) by (simp add: set_brightness_def)
    have sf: "send_frame (PyInt 0x04) (PyList [PyInt ?b]) = Inr ?f"
      using send_one_byte [OF b(2,3), of 4] by simp
    have st: "state_of (set_brightness t v s) = queue_put t ?f s"
      unfolding sb by (rule send_state [OF sf])
    have l: "length [word_of_int ?b :: byte] \<le> 17" by simp
    have u: "uint (?f ! 2) = ?b"
      using b(2,3) by (simp add: wire_frame_def uint_word_of_int)
    have t19: "take 19 ?f = [0x33, 0x04, word_of_int ?b] @ replicate 16 0"
      using wire_frame_take19 [OF l] by simp
    have ex: "\<exists>f. set_brightness t v s = send t (PyInt 0x04) (PyList [PyInt ?b]) s
           \<and> send_frame (PyInt 0x04) (PyList [PyInt ?b]) = Inr f
           \<and> state_of (set_brightness t v s) = queue_put t f s
           \<and> length f = 20
           \<and> take 19 f = [0x33, 0x04, word_of_int ?b] @ replicate 16 0
           \<and> uint (f ! 2) = ?b
           \<and> f ! 19 = xor_bytes (take 19 f)"
      using sb sf st wire_frame_length [OF l] t19 u wire_frame_last [OF l] by blast
    have sp: "?b = (if v = 30 \<or> v = 70 then spec_brightness_byte v - 1
                    else spec_brightness_byte v)"
      using v by (intro half_even_spec) simp_all
    show "(\<exists>f. set_brightness t v s = send t (PyInt 0x04) (PyList [PyInt ?b]) s
           \<and> send_frame (PyInt 0x04) (PyList [PyInt ?b]) = Inr f
           \<and> state_of (set_brightness t v s) = queue_put t f s
           \<and> length f = 20
           \<and> take 19 f = [0x33, 0x04, word_of_int ?b] @ replicate 16 0
           \<and> uint (f ! 2) = ?b
           \<and> f ! 19 = xor_bytes (take 19 f))
        \<and> brightness_byte v = ?b
        \<and> ?b = (if v = 30 \<or> v = 70 then spec_brightness_byte v - 1
                 else spec_brightness_byte v)"
      by (rule conjI [OF ex conjI [OF b(1) sp]])
  qed
  show ?thesis by (rule conjI [OF 1 conjI [OF 2 brightness_half_even_ends]])
qed

text \<open>
  The claim as stated fails at 30 and at 70, where \<open>value / 100 * 255\<close> lies halfway between
  two integers: \<open>round(76.5)\<close> is 77 and \<open>round(178.5)\<close> is 179, and the source, whose
  \<^verbatim>\<open>round\<close> takes a tie to the even neighbour, sends 76 and 178.
\<close>

theorem C3_counterexample:
  "spec_brightness_byte 30 = 77 \<and> brightness_byte 30 = 76
   \<and> queue (state_of (set_brightness 0 30 (shared (BLEController_init True))))
       = [[0x33, 0x04, 76, 0, 0, 0, 0, 0, 0, 0, 0, 0, 0, 0, 0, 0, 0, 0, 0, 0x7B]]
   \<and> spec_brightness_byte 70 = 179 \<and> brightness_byte 70 = 178
   \<and> queue (state_of (set_brightness 0 70 (shared (BLEController_init True))))
       = [[0x33, 0x04, 178, 0, 0, 0, 0, 0, 0, 0, 0, 0, 0, 0, 0, 0, 0, 0, 0, 0x85]]"
  by code_simp

theorem C3_witness:
  "set_brightness 0 150 (shared (BLEController_init True))
      = Raised (ValueError ''value must be between 0 and 100'') (shared (BLEController_init True))
   \<and> set_brightness 0 (- 10) (shared (BLEController_init True))
      = Raised (ValueError ''value must be between 0 and 100'') (shared (BLEController_init True))
   \<and> (\<exists>f. set_brightness 0 100 (shared (BLEController_init True))
          = send 0 (PyInt 0x04) (PyList [PyInt (brightness_half_even 100)])
              (shared (BLEController_init True))
        \<and> send_frame (PyInt 0x04) (PyList [PyInt (brightness_half_even 100)]) = Inr f
        \<and> state_of (set_brightness 0 100 (shared (BLEController_init True)))
            = queue_put 0 f (shared (BLEController_init True))
        \<and> length f = 20
        \<and> take 19 f = [0x33, 0x04, word_of_int (brightness_half_even 100)] @ replicate 16 0
        \<and> uint (f ! 2) = brightness_half_even 100
        \<and> f ! 19 = xor_bytes (take 19 f))
   \<and> brightness_byte 100 = brightness_half_even 100
   \<and> brightness_half_even 100 = spec_brightness_byte 100
   \<and> brightness_byte 30 = brightness_half_even 30
   \<and> brightness_half_even 30 = spec_brightness_byte 30 - 1
   \<and> brightness_half_even 0 = 0x00 \<and> brightness_half_even 100 = 0xFF"
proof -
  let ?s = "shared (BLEController_init True)"
  have h1: "\<not> (0 \<le> (150::int) \<and> (150::int) \<le> 100)" by simp
  have h2: "\<not> (0 \<le> (- 10::int) \<and> (- 10::int) \<le> 100)" by simp
  have h3: "0 \<le> (100::int) \<and> (100::int) \<le> 100" by simp
  have h4: "0 \<le> (30::int) \<and> (30::int) \<le> 100" by simp
  note a = C3_set_brightness [of 150 0 ?s, THEN conjunct1, rule_format, OF h1]
  note b = C3_set_brightness [of "- 10" 0 ?s, THEN conjunct1, rule_format, OF h2]
  note c = C3_set_brightness [of 100 0 ?s, THEN conjunct2, THEN conjunct1, rule_format, OF h3]
  note d = C3_set_brightness [of 30 0 ?s, THEN conjunct2, THEN conjunct1, rule_format, OF h4]
  note e = C3_set_brightness [of 0 0 ?s, THEN conjunct2, THEN conjunct2]
  have c3: "brightness_half_even 100 = spec_brightness_byte 100"
    using c [THEN conjunct2, THEN conjunct2] by simp
  have d3: "brightness_half_even 30 = spec_brightness_byte 30 - 1"
    using d [THEN conjunct2, THEN conjunct2] by simp
  show ?thesis
    by (intro conjI a b c [THEN conjunct1] c [THEN conjunct2, THEN conjunct1] c3
          d [THEN conjunct2, THEN conjunct1] d3 e [THEN conjunct1] e [THEN conjunct2])
qed

text \<open>
  Claim C4.  \<^verbatim>\<open>set_rgb(r, g, b)\<close> raises a \<^verbatim>\<open>ValueError\<close> (\<^verbatim>\<open>bytes must be in range(0, 256)\<close>,
  from the \<^verbatim>\<open>bytes\<close> constructor inside \<^verbatim>\<open>_send\<close>, before anything is enqueued) whenever one of
  \<open>r\<close>, \<open>g\<close>, \<open>b\<close> is outside 0..255; otherwise it sends command \<open>0x05\<close> with payload
  \<open>[0x02, r, g, b]\<close>.  \<^verbatim>\<open>set_rgb(255, 0, 128)\<close> encodes payload \<open>[0x02, 0xFF, 0x00, 0x80]\<close>.
\<close>

theorem C4_set_rgb:
  "(\<not> (0 \<le> r \<and> r \<le> 255 \<and> 0 \<le> g \<and> g \<le> 255 \<and> 0 \<le> b \<and> b \<le> 255) \<longrightarrow>
      set_rgb t r g b s = Raised (ValueError ''bytes must be in range(0, 256)'') s)
   \<and> (0 \<le> r \<and> r \<le> 255 \<and> 0 \<le> g \<and> g \<le> 255 \<and> 0 \<le> b \<and> b \<le> 255 \<longrightarrow>
        (\<exists>f. send_frame (PyInt 0x05) (PyList [PyInt 0x02, PyInt r, PyInt g, PyInt b]) = Inr f
           \<and> state_of (set_rgb t r g b s) = queue_put t f s
           \<and> length f = 20
           \<and> take 19 f = [0x33, 0x05, 0x02, word_of_int r, word_of_int g, word_of_int b]
                @ replicate 13 0
           \<and> uint (f ! 3) = r \<and> uint (f ! 4) = g \<and> uint (f ! 5) = b
           \<and> f ! 19 = xor_bytes (take 19 f)))
   \<and> send_frame (PyInt 0x05) (PyList [PyInt 0x02, PyInt 255, PyInt 0, PyInt 128])
        = Inr ([0x33, 0x05, 0x02, 0xFF, 0x00, 0x80] @ replicate 13 0 @ [0x4B])"
proof -
  let ?ns = "[0x02, r, g, b]"
  have m: "[PyInt 0x02, PyInt r, PyInt g, PyInt b] = map PyInt ?ns" by simp
  have 1: "\<not> (0 \<le> r \<and> r \<le> 255 \<and> 0 \<le> g \<and> g \<le> 255 \<and> 0 \<le> b \<and> b \<le> 255) \<longrightarrow>
      set_rgb t r g b s = Raised (ValueError ''bytes must be in range(0, 256)'') s"
  proof
    assume "\<not> (0 \<le> r \<and> r \<le> 255 \<and> 0 \<le> g \<and> g \<le> 255 \<and> 0 \<le> b \<and> b \<le> 255)"
    then have "\<not> list_all (\<lambda>n. 0 \<le> n \<and> n < 256) ?ns" by auto
    from send_frame_ints_bad [OF this, of 5]
    have "send_frame (PyInt 0x05) (map_PyList ?ns) = Inl (ValueError ''bytes must be in range(0, 256)'')"
      if "map_PyList = (\<lambda>ns. PyList (map PyInt ns))" for map_PyList
      using that by simp
    then have "send_frame (PyInt 0x05) (PyList [PyInt 0x02, PyInt r, PyInt g, PyInt b])
        = Inl (ValueError ''bytes must be in range(0, 256)'')" by simp
    then show "set_rgb t r g b s = Raised (ValueError ''bytes must be in range(0, 256)'') s"
      unfolding set_rgb_def by (rule send_raises)
  qed
  have 2: "0 \<le> r \<and> r \<le> 255 \<and> 0 \<le> g \<and> g \<le> 255 \<and> 0 \<le> b \<and> b \<le> 255 \<longrightarrow>
        (\<exists>f. send_frame (PyInt 0x05) (PyList [PyInt 0x02, PyInt r, PyInt g, PyInt b]) = Inr f
           \<and> state_of (set_rgb t r g b s) = queue_put t f s
           \<and> length f = 20
           \<and> take 19 f = [0x33, 0x05, 0x02, word_of_int r, word_of_int g, word_of_int b]
                @ replicate 13 0
           \<and> uint (f ! 3) = r \<and> uint (f ! 4) = g \<and> uint (f ! 5) = b
           \<and> f ! 19 = xor_bytes (take 19 f))"
  proof
    assume a: "0 \<le> r \<and> r \<le> 255 \<and> 0 \<le> g \<and> g \<le> 255 \<and> 0 \<le> b \<and> b \<le> 255"
    let ?body = "[0x02, word_of_int r, word_of_int g, word_of_int b] :: byte list"
    let ?f = "wire_frame 0x33 0x05 ?body"
    have la: "list_all (\<lambda>n. 0 \<le> n \<and> n < 256) ?ns" using a by simp
    have sf: "send_frame (PyInt 0x05) (PyList [PyInt 0x02, PyInt r, PyInt g, PyInt b]) = Inr ?f"
      using send_frame_ints [OF la, of 5] by simp
    have st: "state_of (set_rgb t r g b s) = queue_put t ?f s"
      unfolding set_rgb_def by (rule send_state [OF sf])
    have l: "length ?body \<le> 17" by simp
    have u: "uint (?f ! 3) = r \<and> uint (?f ! 4) = g \<and> uint (?f ! 5) = b"
      using a by (simp add: wire_frame_def uint_word_of_int)
    have t19: "take 19 ?f = [0x33, 0x05, 0x02, word_of_int r, word_of_int g, word_of_int b]
                @ replicate 13 0"
      using wire_frame_take19 [OF l] by simp
    show "\<exists>f. send_frame (PyInt 0x05) (PyList [PyInt 0x02, PyInt r, PyInt g, PyInt b]) = Inr f
           \<and> state_of (set_rgb t r g b s) = queue_put t f s
           \<and> length f = 20
           \<and> take 19 f = [0x33, 0x05, 0x02, word_of_int r, word_of_int g, word_of_int b]
                @ replicate 13 0
           \<and> uint (f ! 3) = r \<and> uint (f ! 4) = g \<and> uint (f ! 5) = b
           \<and> f ! 19 = xor_bytes (take 19 f)"
      using sf st wire_frame_length [OF l] t19 u wire_frame_last [OF l] by blast
  qed
  have 3: "send_frame (PyInt 0x05) (PyList [PyInt 0x02, PyInt 255, PyInt 0, PyInt 128])
        = Inr ([0x33, 0x05, 0x02, 0xFF, 0x00, 0x80] @ replicate 13 0 @ [0x4B])"
    by code_simp
  from 1 2 3 show ?thesis by blast
qed

theorem C4_witness:
  "set_rgb 0 256 0 0 (shared (BLEController_init True))
      = Raised (ValueError ''bytes must be in range(0, 256)'') (shared (BLEController_init True))
   \<and> (\<exists>f. send_frame (PyInt 0x05) (PyList [PyInt 0x02, PyInt 255, PyInt 0, PyInt 128]) = Inr f
        \<and> state_of (set_rgb 0 255 0 128 (shared (BLEController_init True)))
            = queue_put 0 f (shared (BLEController_init True))
        \<and> length f = 20
        \<and> take 19 f = [0x33, 0x05, 0x02, word_of_int 255, word_of_int 0, word_of_int 128]
             @ replicate 13 0
        \<and> uint (f ! 3) = 255 \<and> uint (f ! 4) = 0 \<and> uint (f ! 5) = 128
        \<and> f ! 19 = xor_bytes (take 19 f))"
proof -
  have h1: "\<not> (0 \<le> (256::int) \<and> (256::int) \<le> 255 \<and> 0 \<le> (0::int) \<and> (0::int) \<le> 255
      \<and> 0 \<le> (0::int) \<and> (0::int) \<le> 255)" by simp
  have h2: "0 \<le> (255::int) \<and> (255::int) \<le> 255 \<and> 0 \<le> (0::int) \<and> (0::int) \<le> 255
      \<and> 0 \<le> (128::int) \<and> (128::int) \<le> 255" by simp
  from h1 h2
    C4_set_rgb [of 256 0 0 0 "shared (BLEController_init True)"]
    C4_set_rgb [of 255 0 128 0 "shared (BLEController_init True)"]
  show ?thesis by blast
qed

section \<open>The invariants hold in every reachable configuration\<close>

lemma bind_outcome_inv:
  "inv_out P m \<Longrightarrow> (\<And>s. P s \<Longrightarrow> inv_out P (g s)) \<Longrightarrow> inv_out P (bind_outcome m g)"
  by (induction m) auto

lemma send_inv:
  assumes "api_stable P" "P s"
  shows "inv_out P (send t cmd payload s)"
proof (cases "send_frame cmd payload")
  case (Inl e)
  then show ?thesis using assms by (simp add: send_def)
next
  case (Inr f)
  with assms have "P (queue_put t f s)" unfolding api_stable_def by blast
  with Inr show ?thesis by (simp add: send_def queue_join_def Let_def)
qed

lemma set_brightness_inv:
  "api_stable P \<Longrightarrow> P s \<Longrightarrow> inv_out P (set_brightness t v s)"
  by (simp add: set_brightness_def send_inv)

lemma disconnect_inv:
  assumes "api_stable P" "P s"
  shows "inv_out P (disconnect t b s)"
proof -
  have c: "\<And>s. P s \<Longrightarrow> P (cleanup s)"
    using assms(1) by (simp add: api_stable_def cleanup_def)
  have b: "P (s\<lparr>blocking := True\<rparr>)" using assms by (simp add: api_stable_def)
  show ?thesis
    unfolding disconnect_def
    by (auto intro!: bind_outcome_inv set_brightness_inv send_inv assms c b simp: turn_off_def)
qed

lemma api_inv:
  assumes "api_stable P" "P s"
  shows "inv_out P (api t a s)"
proof (cases a)
  case (Set_blocking b)
  then show ?thesis using assms by (simp add: api_stable_def)
next
  case Join
  then show ?thesis using assms by (simp add: queue_join_def)
qed (simp_all add: assms send_inv set_brightness_inv disconnect_inv turn_on_def turn_off_def
      set_rgb_def)

lemma good_cont_api: "good_cont (api t a)"
  unfolding good_cont_def using api_inv by blast

lemma good_cont_Done: "good_cont Done"
  by (simp add: good_cont_def)

lemma good_cont_bind:
  assumes "good_cont k" "good_cont g"
  shows "good_cont (\<lambda>s. bind_outcome (k s) g)"
  unfolding good_cont_def
proof (intro allI impI)
  fix P s
  assume P: "api_stable P" "P s"
  with assms(1) have "inv_out P (k s)" by (simp add: good_cont_def)
  moreover have "\<And>s. P s \<Longrightarrow> inv_out P (g s)" using assms(2) P(1) by (simp add: good_cont_def)
  ultimately show "inv_out P (bind_outcome (k s) g)" by (rule bind_outcome_inv)
qed

lemma hgood_bind:
  assumes "hgood m" "good_cont g" "\<And>s. hgood (g s)"
  shows "hgood (bind_outcome m g)"
  using assms(1)
proof (induction m)
  case (Wait s k)
  then have k: "good_cont k" "\<And>s'. hgood (k s')" by simp_all
  have "good_cont (\<lambda>s'. bind_outcome (k s') g)" using k(1) assms(2) by (rule good_cont_bind)
  moreover have "hgood (bind_outcome (k s') g)" for s'
    using Wait.IH [of "k s'"] k(2) by (simp add: rangeI)
  ultimately show ?case by simp
qed (simp_all add: assms(3))

lemma hgood_send: "hgood (send t cmd payload s)"
  by (cases "send_frame cmd payload") (simp_all add: send_def queue_join_def Let_def good_cont_Done)

lemma hgood_set_brightness: "hgood (set_brightness t v s)"
  by (simp add: set_brightness_def hgood_send)

lemma good_cont_send: "good_cont (send t cmd payload)"
  unfolding good_cont_def using send_inv by blast

lemma good_cont_cleanup: "good_cont (\<lambda>s. Done (cleanup s))"
  by (simp add: good_cont_def api_stable_def cleanup_def)

lemma hgood_disconnect: "hgood (disconnect t b s)"
proof -
  have 1: "good_cont (\<lambda>s2. Done (cleanup s2))" by (rule good_cont_cleanup)
  have 2: "good_cont (\<lambda>s1. bind_outcome (turn_off t s1) (\<lambda>s2. Done (cleanup s2)))"
    unfolding turn_off_def by (rule good_cont_bind [OF good_cont_send 1])
  have 3: "hgood (bind_outcome (turn_off t s1) (\<lambda>s2. Done (cleanup s2)))" for s1
    unfolding turn_off_def by (rule hgood_bind [OF hgood_send 1]) simp
  show ?thesis
    unfolding disconnect_def using hgood_bind [OF hgood_set_brightness 2 3] by simp
qed

lemma hgood_api: "hgood (api t a s)"
  by (cases a)
    (simp_all add: hgood_send hgood_set_brightness hgood_disconnect turn_on_def turn_off_def
      set_rgb_def queue_join_def good_cont_Done)

lemma settle_conts_ok:
  assumes "conts_ok c" "hgood out"
  shows "conts_ok (settle t out c)"
  using assms by (cases out) (auto simp: conts_ok_def)

lemma step_conts_ok:
  assumes "conts_ok c" "step e c = Some c'"
  shows "conts_ok c'"
proof (cases e)
  case (Call t a)
  with assms(2) have "c' = settle t (api t a (shared c)) c" by (simp split: if_splits)
  then show ?thesis using settle_conts_ok [OF assms(1) hgood_api] by simp
next
  case (Resume t)
  with assms(2) obtain k where k: "waiting c t = Some k" "c' = settle t (k (shared c)) c"
    by (auto split: option.splits if_splits)
  with assms(1) have "hgood (k (shared c))" by (simp add: conts_ok_def)
  then show ?thesis unfolding k(2) by (rule settle_conts_ok [OF assms(1)])
next
  case Init_step
  with assms show ?thesis by (auto simp: conts_ok_def split: phase.splits if_splits)
next
  case (Worker w)
  with assms show ?thesis by (auto simp: conts_ok_def)
qed

lemma settle_shared: "shared (settle t out c) = state_of out"
  by (cases out) simp_all

lemma step_pres:
  assumes "api_stable P" "work_stable P" "conts_ok c" "P (shared c)" "step e c = Some c'"
  shows "P (shared c')"
proof (cases e)
  case (Call t a)
  with assms(5) have c': "c' = settle t (api t a (shared c)) c" by (simp split: if_splits)
  have "inv_out P (api t a (shared c))" using assms(1,4) by (rule api_inv)
  then have "P (state_of (api t a (shared c)))" by (cases "api t a (shared c)") simp_all
  then show ?thesis by (simp add: c' settle_shared)
next
  case (Resume t)
  with assms(5) obtain k where k: "waiting c t = Some k" "c' = settle t (k (shared c)) c"
    by (auto split: option.splits if_splits)
  with assms(3) have "good_cont k" by (simp add: conts_ok_def)
  with assms(1,4) have "inv_out P (k (shared c))" by (simp add: good_cont_def)
  then have "P (state_of (k (shared c)))" by (cases "k (shared c)") simp_all
  then show ?thesis by (simp add: k(2) settle_shared)
next
  case Init_step
  with assms(5) have "c' = c \<or> c' = c\<lparr>shared := (shared c)\<lparr>blocking := True\<rparr>, phase := Constructed\<rparr>"
    by (auto split: phase.splits if_splits)
  moreover have "P ((shared c)\<lparr>blocking := True\<rparr>)"
    using assms(1,4) by (simp add: api_stable_def)
  ultimately show ?thesis using assms(4) by auto
next
  case (Worker w)
  with assms(5) obtain s' where s': "work_step w (shared c) = Some s'" "c' = c\<lparr>shared := s'\<rparr>"
    by auto
  with assms(2,4) have "P s'" unfolding work_stable_def by blast
  with s'(2) show ?thesis by simp
qed

lemma run_invariant:
  assumes "\<And>e c c'. I c \<Longrightarrow> step e c = Some c' \<Longrightarrow> I c'"
  shows "I c \<Longrightarrow> run evs c = Some c' \<Longrightarrow> I c'"
proof (induction evs arbitrary: c)
  case Nil
  then show ?case by simp
next
  case (Cons e evs)
  from Cons.prems(2) obtain c1 where c1: "step e c = Some c1" "run evs c1 = Some c'"
    by (auto split: option.splits)
  from assms [OF Cons.prems(1) c1(1)] have "I c1" .
  from Cons.IH [OF this c1(2)] show ?case .
qed

lemma run_pres:
  assumes "api_stable P" "work_stable P" "conts_ok c" "P (shared c)" "run evs c = Some c'"
  shows "P (shared c') \<and> conts_ok c'"
proof (rule run_invariant [where I = "\<lambda>c. P (shared c) \<and> conts_ok c"])
  show "P (shared c) \<and> conts_ok c" using assms(3,4) by simp
  show "run evs c = Some c'" by fact
  fix e c c'
  assume "P (shared c) \<and> conts_ok c" "step e c = Some c'"
  then show "P (shared c') \<and> conts_ok c'"
    using step_pres [OF assms(1,2)] step_conts_ok by blast
qed

lemma run_append:
  "run (es1 @ es2) c = (case run es1 c of None \<Rightarrow> None | Some c1 \<Rightarrow> run es2 c1)"
  by (induction es1 arbitrary: c) (auto split: option.splits)

lemma conts_ok_init: "conts_ok (BLEController_init block)"
  by (simp add: conts_ok_def BLEController_init_def)

lemma keepalive_first: "keepalive_frame = Inr f \<Longrightarrow> f ! 0 = 0xAA"
  by (auto simp: keepalive_frame_eq)

lemma cmd_frames_snoc_cmd: "f ! 0 = 0x33 \<Longrightarrow> cmd_frames (fs @ [f]) = cmd_frames fs @ [f]"
  by (auto simp: cmd_frames_def keepalive_frame_eq)

lemma cmd_frames_snoc_ka: "Inr f = keepalive_frame \<Longrightarrow> cmd_frames (fs @ [f]) = cmd_frames fs"
  by (simp add: cmd_frames_def)

lemma api_stable_sys_inv: "api_stable sys_inv"
proof -
  have put: "sys_inv (queue_put t f s)" if s: "sys_inv s" and f: "send_frame cmd payload = Inr f"
    for s t cmd payload f
  proof -
    from s obtain mid where mid: "cmd_frames (link s) @ mid @ queue s = map snd (enq_log s)"
      "mid_ok (wpc s) mid"
      "unfinished s = length (queue s) + length mid + (if wpc s = Sent then 1 else 0)"
      unfolding sys_inv_def fifo_inv_def by blast
    have "fifo_inv (queue_put t f s)"
      unfolding fifo_inv_def using mid by (intro exI [of _ mid]) (simp add: queue_put_def)
    moreover have "shape_inv (queue_put t f s)"
      using s send_frame_shape [OF f] by (simp add: sys_inv_def shape_inv_def queue_put_def)
    moreover have "conn_inv (queue_put t f s)"
      using s by (simp add: sys_inv_def conn_inv_def queue_put_def)
    ultimately show ?thesis by (simp add: sys_inv_def)
  qed
  have blk: "sys_inv (s\<lparr>blocking := b\<rparr>)" if "sys_inv s" for s b
    using that by (simp add: sys_inv_def fifo_inv_def shape_inv_def conn_inv_def)
  have stp: "sys_inv (stop_work s)" if "sys_inv s" for s
    using that by (simp add: sys_inv_def fifo_inv_def shape_inv_def conn_inv_def stop_work_def)
  show ?thesis unfolding api_stable_def using put blk stp by blast
qed

lemma work_step_shape:
  assumes "shape_inv s" "work_step w s = Some s'"
  shows "shape_inv s'"
  using assms
  by (cases w; cases "wpc s")
     (auto simp: shape_inv_def keepalive_frame_eq split: list.splits if_splits)

lemma work_step_conn:
  assumes "conn_inv s" "work_step w s = Some s'"
  shows "conn_inv s'"
  using assms
  by (cases w; cases "wpc s")
     (auto simp: conn_inv_def keepalive_frame_eq split: list.splits if_splits)

lemma fifo_inv_keep:
  assumes "fifo_inv s" "link s' = link s" "queue s' = queue s" "enq_log s' = enq_log s"
    "unfinished s' = unfinished s" "\<And>mid. mid_ok (wpc s) mid \<Longrightarrow> mid_ok (wpc s') mid"
    "wpc s \<noteq> Sent" "wpc s' \<noteq> Sent"
  shows "fifo_inv s'"
proof -
  from assms(1) obtain mid where mid: "cmd_frames (link s) @ mid @ queue s = map snd (enq_log s)"
    "mid_ok (wpc s) mid"
    "unfinished s = length (queue s) + length mid + (if wpc s = Sent then 1 else 0)"
    unfolding fifo_inv_def by blast
  show ?thesis
    unfolding fifo_inv_def
    using mid assms(2-5,7,8) assms(6) [OF mid(2)] by (intro exI [of _ mid]) simp
qed

lemma work_step_fifo:
  assumes f: "fifo_inv s" and sh: "shape_inv s" and w: "work_step w s = Some s'"
  shows "fifo_inv s'"
proof -
  from f obtain mid where mid: "cmd_frames (link s) @ mid @ queue s = map snd (enq_log s)"
    "mid_ok (wpc s) mid"
    "unfinished s = length (queue s) + length mid + (if wpc s = Sent then 1 else 0)"
    unfolding fifo_inv_def by blast
  show ?thesis
  proof (cases w)
    case (W_start t)
    with w have "wpc s = Starting" "s' = s\<lparr>prev_time := t, wpc := Connecting\<rparr>"
      by (cases "wpc s"; simp)+
    then show ?thesis by (intro fifo_inv_keep [OF f]) simp_all
  next
    case W_connected
    with w have "wpc s = Connecting" "s' = s\<lparr>ready := True, connected := True, wpc := LoopHead\<rparr>"
      by (cases "wpc s"; simp)+
    then show ?thesis by (intro fifo_inv_keep [OF f]) simp_all
  next
    case W_connect_failed
    with w have "wpc s = Connecting" "s' = s\<lparr>wpc := Crashed\<rparr>"
      by (cases "wpc s"; simp)+
    then show ?thesis by (intro fifo_inv_keep [OF f]) simp_all
  next
    case W_check_stop
    with w have pc: "wpc s = LoopHead" by (cases "wpc s"; simp)
    with w W_check_stop have "s' = s\<lparr>wpc := Exited, connected := False\<rparr> \<or> s' = s\<lparr>wpc := Polling\<rparr>"
      by (simp split: if_splits)
    with pc show ?thesis by (intro fifo_inv_keep [OF f]) auto
  next
    case (W_poll t)
    with w have pc: "wpc s = Polling" by (cases "wpc s"; simp)
    with mid have m: "mid = []" by simp
    show ?thesis
    proof (cases "queue s")
      case Nil
      with w W_poll pc have "s' = s\<lparr>wpc := LoopHead\<rparr> \<or>
          s' = s\<lparr>wpc := KeepAlive [0xAA, 0x01, 0, 0, 0, 0, 0, 0, 0, 0, 0, 0, 0, 0, 0, 0, 0, 0, 0, 0xAB]\<rparr>"
        by (simp add: keepalive_frame_eq split: if_splits)
      with pc show ?thesis by (intro fifo_inv_keep [OF f]) auto
    next
      case (Cons x q)
      with w W_poll pc have s': "s' = s\<lparr>queue := q, prev_time := t, wpc := Sending x\<rparr>" by simp
      show ?thesis
        unfolding fifo_inv_def s' using mid m Cons pc
        by (intro exI [of _ "[x]"]) simp
    qed
  next
    case (W_written t)
    from w W_written have "(\<exists>x. wpc s = Sending x) \<or> (\<exists>x. wpc s = KeepAlive x)"
      by (cases "wpc s"; simp)
    then show ?thesis
    proof (elim disjE exE)
      fix x assume Sending: "wpc s = Sending x"
      with w W_written have s': "s' = s\<lparr>link := link s @ [x], wpc := Sent\<rparr>" by simp
      from Sending mid have m: "mid = [x]" by simp
      from mid(1) m have "map snd (enq_log s) = cmd_frames (link s) @ x # queue s" by simp
      then have "x \<in> set (map snd (enq_log s))" by simp
      with sh have "x ! 0 = 0x33" by (auto simp: shape_inv_def list_all_iff)
      then have "cmd_frames (link s @ [x]) = cmd_frames (link s) @ [x]"
        by (rule cmd_frames_snoc_cmd)
      then show ?thesis
        unfolding fifo_inv_def s' using mid m Sending
        by (intro exI [of _ "[]"]) simp
    next
      fix x assume KeepAlive: "wpc s = KeepAlive x"
      with w W_written have s': "s' = s\<lparr>link := link s @ [x], prev_time := t, wpc := LoopHead\<rparr>"
        by simp
      from KeepAlive sh have "Inr x = keepalive_frame" by (simp add: shape_inv_def)
      then have "cmd_frames (link s @ [x]) = cmd_frames (link s)" by (rule cmd_frames_snoc_ka)
      then show ?thesis
        unfolding fifo_inv_def s' using mid KeepAlive
        by (intro exI [of _ "[]"]) simp
    qed
  next
    case W_write_failed
    from w W_write_failed have pc: "(\<exists>x. wpc s = Sending x) \<or> (\<exists>x. wpc s = KeepAlive x)"
      by (cases "wpc s"; simp)
    with w W_write_failed have s': "s' = s\<lparr>wpc := Crashed, connected := False\<rparr>" by auto
    from pc mid(2) have "length mid \<le> 1" by auto
    then show ?thesis
      unfolding fifo_inv_def s' using mid pc
      by (intro exI [of _ mid]) auto
  next
    case W_task_done
    with w have pc: "wpc s = Sent" by (cases "wpc s"; simp)
    with mid have m: "mid = []" "unfinished s = length (queue s) + 1" by simp_all
    with w W_task_done pc have s': "s' = s\<lparr>unfinished := unfinished s - 1, wpc := LoopHead\<rparr>"
      by simp
    show ?thesis
      unfolding fifo_inv_def s' using mid m pc
      by (intro exI [of _ "[]"]) simp
  qed
qed

lemma work_stable_sys_inv: "work_stable sys_inv"
  unfolding work_stable_def sys_inv_def
  using work_step_fifo work_step_shape work_step_conn by blast

lemma sys_inv_init: "sys_inv (shared (BLEController_init block))"
  by (simp add: sys_inv_def fifo_inv_def shape_inv_def conn_inv_def BLEController_init_def
      cmd_frames_def)

lemma reachable_sys_inv:
  assumes "run evs (BLEController_init block) = Some c"
  shows "sys_inv (shared c) \<and> conts_ok c"
  using run_pres [OF api_stable_sys_inv work_stable_sys_inv conts_ok_init sys_inv_init assms] .

section \<open>Properties of the running system\<close>

lemma mid_ok_length: "mid_ok pc mid \<Longrightarrow> length mid \<le> 1"
  by (cases pc) auto

lemma reachable_fifo:
  assumes "run evs (BLEController_init block) = Some c"
  obtains mid where "cmd_frames (link (shared c)) @ mid @ queue (shared c) = map snd (enq_log (shared c))"
    "mid_ok (wpc (shared c)) mid"
    "unfinished (shared c) = length (queue (shared c)) + length mid + (if wpc (shared c) = Sent then 1 else 0)"
  using reachable_sys_inv [OF assms] unfolding sys_inv_def fifo_inv_def by blast

lemma drained:
  assumes "run evs (BLEController_init block) = Some c" "unfinished (shared c) = 0"
  shows "queue (shared c) = [] \<and> cmd_frames (link (shared c)) = map snd (enq_log (shared c))"
proof -
  from reachable_fifo [OF assms(1)] obtain mid where
    mid: "cmd_frames (link (shared c)) @ mid @ queue (shared c) = map snd (enq_log (shared c))"
    "unfinished (shared c) = length (queue (shared c)) + length mid + (if wpc (shared c) = Sent then 1 else 0)"
    by blast
  from mid(2) assms(2) have "queue (shared c) = []" "mid = []" by simp_all
  with mid(1) show ?thesis by simp
qed

lemma work_step_enq_log: "work_step w s = Some s' \<Longrightarrow> enq_log s' = enq_log s"
  by (cases w; cases "wpc s") (auto split: list.splits if_splits sum.splits)

lemma enq_log_grows:
  assumes "conts_ok c" "run evs c = Some c'"
  shows "prefix (enq_log (shared c)) (enq_log (shared c'))"
proof -
  let ?P = "\<lambda>s. prefix (enq_log (shared c)) (enq_log s)"
  have a: "api_stable ?P"
    by (auto simp: api_stable_def queue_put_def stop_work_def)
  have w: "work_stable ?P"
    unfolding work_stable_def using work_step_enq_log by metis
  from run_pres [OF a w assms(1) _ assms(2)] show ?thesis by simp
qed

lemma demo_trace_runs: "\<exists>c. run demo_trace (BLEController_init True) = Some c"
proof -
  have "(case run demo_trace (BLEController_init True) of None \<Rightarrow> False | Some c \<Rightarrow> True)"
    by code_simp
  then show ?thesis by (auto split: option.splits)
qed

text \<open>
  Claim C6.  In every reachable configuration the command frames written to the link are, in
  order, exactly the first frames that were put on the queue: nothing is reordered, dropped
  in between or merged (at most one frame, the one the worker has taken and not yet written,
  lies between the link and the queue).  With several caller threads, the frames of each
  thread appear on the link in the order in which that thread enqueued them.
\<close>

theorem C6_fifo_order:
  assumes "run evs (BLEController_init block) = Some c"
  shows "(\<exists>mid. length mid \<le> 1 \<and>
            map snd (enq_log (shared c)) = cmd_frames (link (shared c)) @ mid @ queue (shared c))
       \<and> cmd_frames (link (shared c))
            = map snd (take (length (cmd_frames (link (shared c)))) (enq_log (shared c)))
       \<and> (\<forall>t. prefix (filter (\<lambda>e. fst e = t)
                          (take (length (cmd_frames (link (shared c)))) (enq_log (shared c))))
                       (filter (\<lambda>e. fst e = t) (enq_log (shared c))))"
proof -
  let ?s = "shared c"
  from reachable_fifo [OF assms] obtain mid where
    mid: "cmd_frames (link ?s) @ mid @ queue ?s = map snd (enq_log ?s)" "mid_ok (wpc ?s) mid"
    by blast
  have 1: "\<exists>mid. length mid \<le> 1 \<and> map snd (enq_log ?s) = cmd_frames (link ?s) @ mid @ queue ?s"
    using mid mid_ok_length by metis
  have "take (length (cmd_frames (link ?s))) (map snd (enq_log ?s)) = cmd_frames (link ?s)"
    unfolding mid(1) [symmetric] by simp
  then have 2: "cmd_frames (link ?s) = map snd (take (length (cmd_frames (link ?s))) (enq_log ?s))"
    by (simp add: take_map)
  have 3: "prefix (filter (\<lambda>e. fst e = t) (take n (enq_log ?s))) (filter (\<lambda>e. fst e = t) (enq_log ?s))"
    for t n
    by (intro filter_mono_prefix) (simp add: take_is_prefix)
  from 1 2 3 show ?thesis by blast
qed

theorem C6_witness:
  "\<exists>c. run demo_trace (BLEController_init True) = Some c
     \<and> (\<exists>mid. length mid \<le> 1 \<and>
            map snd (enq_log (shared c)) = cmd_frames (link (shared c)) @ mid @ queue (shared c))
     \<and> cmd_frames (link (shared c))
            = map snd (take (length (cmd_frames (link (shared c)))) (enq_log (shared c)))
     \<and> (\<forall>t. prefix (filter (\<lambda>e. fst e = t)
                          (take (length (cmd_frames (link (shared c)))) (enq_log (shared c))))
                       (filter (\<lambda>e. fst e = t) (enq_log (shared c))))"
proof -
  from demo_trace_runs obtain c where c: "run demo_trace (BLEController_init True) = Some c" ..
  from C6_fifo_order [OF c] c show ?thesis by blast
qed

text \<open>
  Claim C10.  Every frame ever put on the queue, and so every frame in the queue and every
  frame the worker takes from it, has 20 bytes and first byte \<open>0x33\<close>, and is not the
  keep-alive frame.  The keep-alive frame (first byte \<open>0xAA\<close>) is built inside the worker;
  writing it leaves the queue, the history of puts and \<^verbatim>\<open>unfinished_tasks\<close> unchanged, so it
  never delays a \<^verbatim>\<open>join\<close>.
\<close>

theorem C10_queue_holds_commands:
  assumes "run evs (BLEController_init block) = Some c"
  shows "list_all (\<lambda>f. length f = 20 \<and> f ! 0 = 0x33) (map snd (enq_log (shared c)))
       \<and> list_all (\<lambda>f. length f = 20 \<and> f ! 0 = 0x33) (queue (shared c))
       \<and> (\<forall>f. wpc (shared c) = Sending f \<longrightarrow> f ! 0 = 0x33 \<and> Inr f \<noteq> keepalive_frame)
       \<and> (\<forall>f. wpc (shared c) = KeepAlive f \<longrightarrow>
             Inr f = keepalive_frame \<and> f ! 0 = 0xAA \<and>
             (\<forall>t. \<exists>s'. work_step (W_written t) (shared c) = Some s' \<and> link s' = link (shared c) @ [f]
                   \<and> queue s' = queue (shared c) \<and> unfinished s' = unfinished (shared c)
                   \<and> enq_log s' = enq_log (shared c)))"
proof -
  let ?s = "shared c"
  from reachable_sys_inv [OF assms] have sh: "shape_inv ?s" by (simp add: sys_inv_def)
  from reachable_fifo [OF assms] obtain mid where
    mid: "cmd_frames (link ?s) @ mid @ queue ?s = map snd (enq_log ?s)" "mid_ok (wpc ?s) mid"
    by blast
  have all: "list_all (\<lambda>f. length f = 20 \<and> f ! 0 = 0x33) (map snd (enq_log ?s))"
    using sh by (simp add: shape_inv_def)
  then have "list_all (\<lambda>f. length f = 20 \<and> f ! 0 = 0x33) (cmd_frames (link ?s) @ mid @ queue ?s)"
    by (simp only: mid(1))
  then have q: "list_all (\<lambda>f. length f = 20 \<and> f ! 0 = 0x33) (queue ?s)"
    and m: "list_all (\<lambda>f. length f = 20 \<and> f ! 0 = 0x33) mid" by simp_all
  have s: "f ! 0 = 0x33 \<and> Inr f \<noteq> keepalive_frame" if "wpc ?s = Sending f" for f
  proof -
    from that mid(2) have "mid = [f]" by simp
    with m have "f ! 0 = 0x33" by simp
    then show ?thesis by (auto simp: keepalive_frame_eq)
  qed
  have k: "Inr f = keepalive_frame \<and> f ! 0 = 0xAA \<and>
             (\<forall>t. \<exists>s'. work_step (W_written t) ?s = Some s' \<and> link s' = link ?s @ [f]
                   \<and> queue s' = queue ?s \<and> unfinished s' = unfinished ?s
                   \<and> enq_log s' = enq_log ?s)" if "wpc ?s = KeepAlive f" for f
  proof -
    from that sh have "Inr f = keepalive_frame" by (simp add: shape_inv_def)
    moreover from this have "f ! 0 = 0xAA" by (auto simp: keepalive_frame_eq)
    ultimately show ?thesis using that by simp
  qed
  from all q s k show ?thesis by blast
qed

lemma option_caseE:
  assumes "case x of None \<Rightarrow> False | Some y \<Rightarrow> P y"
  obtains y where "x = Some y" "P y"
  using assms by (cases x) simp_all

lemma sending_trace_state:
  "\<exists>c f. run sending_trace (BLEController_init True) = Some c \<and> wpc (shared c) = Sending f"
proof -
  have "case run sending_trace (BLEController_init True) of None \<Rightarrow> False
        | Some c \<Rightarrow> (case wpc (shared c) of Sending f \<Rightarrow> True | _ \<Rightarrow> False)"
    by code_simp
  then obtain c where c: "run sending_trace (BLEController_init True) = Some c"
    "case wpc (shared c) of Sending f \<Rightarrow> True | _ \<Rightarrow> False"
    by (rule option_caseE)
  from c(2) obtain f where "wpc (shared c) = Sending f" by (cases "wpc (shared c)") simp_all
  with c(1) show ?thesis by blast
qed

lemma idle_trace_state:
  "\<exists>c f. run idle_trace (BLEController_init True) = Some c \<and> wpc (shared c) = KeepAlive f"
proof -
  have "case run idle_trace (BLEController_init True) of None \<Rightarrow> False
        | Some c \<Rightarrow> (case wpc (shared c) of KeepAlive f \<Rightarrow> True | _ \<Rightarrow> False)"
    by code_simp
  then obtain c where c: "run idle_trace (BLEController_init True) = Some c"
    "case wpc (shared c) of KeepAlive f \<Rightarrow> True | _ \<Rightarrow> False"
    by (rule option_caseE)
  from c(2) obtain f where "wpc (shared c) = KeepAlive f" by (cases "wpc (shared c)") simp_all
  with c(1) show ?thesis by blast
qed

theorem C10_witness:
  "(\<exists>c f. run sending_trace (BLEController_init True) = Some c
       \<and> wpc (shared c) = Sending f \<and> f ! 0 = 0x33 \<and> Inr f \<noteq> keepalive_frame
       \<and> list_all (\<lambda>f. length f = 20 \<and> f ! 0 = 0x33) (map snd (enq_log (shared c)))
       \<and> list_all (\<lambda>f. length f = 20 \<and> f ! 0 = 0x33) (queue (shared c)))
   \<and> (\<exists>c f s'. run idle_trace (BLEController_init True) = Some c
       \<and> wpc (shared c) = KeepAlive f \<and> Inr f = keepalive_frame \<and> f ! 0 = 0xAA
       \<and> work_step (W_written 5) (shared c) = Some s' \<and> link s' = link (shared c) @ [f]
       \<and> queue s' = queue (shared c) \<and> unfinished s' = unfinished (shared c)
       \<and> enq_log s' = enq_log (shared c))"
proof -
  from sending_trace_state obtain c f where
    c: "run sending_trace (BLEController_init True) = Some c" "wpc (shared c) = Sending f"
    by blast
  from idle_trace_state obtain d g where
    d: "run idle_trace (BLEController_init True) = Some d" "wpc (shared d) = KeepAlive g"
    by blast
  from C10_queue_holds_commands [OF c(1)] c
  have A: "\<exists>c f. run sending_trace (BLEController_init True) = Some c
       \<and> wpc (shared c) = Sending f \<and> f ! 0 = 0x33 \<and> Inr f \<noteq> keepalive_frame
       \<and> list_all (\<lambda>f. length f = 20 \<and> f ! 0 = 0x33) (map snd (enq_log (shared c)))
       \<and> list_all (\<lambda>f. length f = 20 \<and> f ! 0 = 0x33) (queue (shared c))" by blast
  from C10_queue_holds_commands [OF d(1)] d
  have B: "\<exists>c f s'. run idle_trace (BLEController_init True) = Some c
       \<and> wpc (shared c) = KeepAlive f \<and> Inr f = keepalive_frame \<and> f ! 0 = 0xAA
       \<and> work_step (W_written 5) (shared c) = Some s' \<and> link s' = link (shared c) @ [f]
       \<and> queue s' = queue (shared c) \<and> unfinished s' = unfinished (shared c)
       \<and> enq_log s' = enq_log (shared c)" by blast
  from A B show ?thesis by (rule conjI)
qed

lemma resume_enabled:
  "step (Resume t) c = Some c' \<Longrightarrow> unfinished (shared c) = 0 \<and> waiting c t \<noteq> None"
  by (auto split: option.splits if_splits)

lemma run_snoc: "run (evs @ [e]) c = (case run evs c of None \<Rightarrow> None | Some c1 \<Rightarrow> step e c1)"
  by (simp add: run_append split: option.splits)

lemma join_returns_drained:
  assumes r1: "run evs1 (BLEController_init block) = Some c1"
    and r2: "run evs2 c1 = Some c2"
    and r3: "step (Resume t) c2 = Some c3"
  shows "queue (shared c2) = [] \<and>
         prefix (map snd (enq_log (shared c1))) (cmd_frames (link (shared c2)))"
proof -
  have r: "run (evs1 @ evs2) (BLEController_init block) = Some c2"
    using r1 r2 by (simp add: run_append)
  from resume_enabled [OF r3] have "unfinished (shared c2) = 0" by simp
  from drained [OF r this]
  have d: "queue (shared c2) = []" "cmd_frames (link (shared c2)) = map snd (enq_log (shared c2))"
    by simp_all
  from reachable_sys_inv [OF r1] have "conts_ok c1" by simp
  from enq_log_grows [OF this r2]
  have "prefix (map snd (enq_log (shared c1))) (map snd (enq_log (shared c2)))"
    by (rule map_mono_prefix)
  with d show ?thesis by simp
qed

text \<open>
  Claim C7.  The constructor leaves \<^verbatim>\<open>blocking\<close> on.  A \<^verbatim>\<open>_send\<close> with valid arguments puts
  its frame on the queue; with \<^verbatim>\<open>blocking\<close> on, the calling thread then waits in \<^verbatim>\<open>join\<close> and
  can make no other call; with \<^verbatim>\<open>blocking\<close> off the call has returned right after the put.
  Whenever a \<^verbatim>\<open>join\<close> returns later (that of this call, or a direct \<^verbatim>\<open>_queue.join()\<close>, the
  spec's \<^verbatim>\<open>waitUntilDrained\<close>), the queue is empty and all frames enqueued up to and including
  this call's have been written to the link, hence before any later \<^verbatim>\<open>disconnect\<close>.
\<close>

theorem C7_blocking_send:
  assumes r0: "run evs0 (BLEController_init block) = Some c0"
    and call: "step (Call t (Send cmd payload)) c0 = Some c1"
    and f: "send_frame cmd payload = Inr f"
  shows "enq_log (shared c1) = enq_log (shared c0) @ [(t, f)]
       \<and> (blocking (shared c0) \<longrightarrow>
             waiting c1 t \<noteq> None \<and> (\<forall>a. step (Call t a) c1 = None))
       \<and> (\<not> blocking (shared c0) \<longrightarrow>
             waiting c1 t = None \<and> shared c1 = queue_put t f (shared c0))
       \<and> (\<forall>evs2 c2 u c3. run evs2 c1 = Some c2 \<and> step (Resume u) c2 = Some c3 \<longrightarrow>
             queue (shared c2) = [] \<and>
             prefix (map snd (enq_log (shared c1))) (cmd_frames (link (shared c2))))
       \<and> (\<forall>u s. api u Join s = Wait s Done)
       \<and> (\<forall>c c'. step Init_step c = Some c' \<and> phase c' = Constructed \<longrightarrow> blocking (shared c'))"
proof -
  from call have c1: "c1 = settle t (send t cmd payload (shared c0)) c0"
    by (simp split: if_splits)
  have snd: "send t cmd payload (shared c0) =
      (if blocking (shared c0) then Wait (queue_put t f (shared c0)) Done
       else Done (queue_put t f (shared c0)))"
    using f by (simp add: send_def queue_join_def queue_put_def Let_def)
  have 1: "enq_log (shared c1) = enq_log (shared c0) @ [(t, f)]"
    unfolding c1 snd by (simp add: queue_put_def)
  have 2: "blocking (shared c0) \<longrightarrow> waiting c1 t \<noteq> None \<and> (\<forall>a. step (Call t a) c1 = None)"
    unfolding c1 snd by simp
  have 3: "\<not> blocking (shared c0) \<longrightarrow> waiting c1 t = None \<and> shared c1 = queue_put t f (shared c0)"
    unfolding c1 snd by simp
  have r1: "run (evs0 @ [Call t (Send cmd payload)]) (BLEController_init block) = Some c1"
    using r0 call by (simp add: run_snoc)
  have 4: "\<forall>evs2 c2 u c3. run evs2 c1 = Some c2 \<and> step (Resume u) c2 = Some c3 \<longrightarrow>
             queue (shared c2) = [] \<and>
             prefix (map snd (enq_log (shared c1))) (cmd_frames (link (shared c2)))"
    using join_returns_drained [OF r1] by blast
  have 5: "\<forall>u s. api u Join s = Wait s Done" by (simp add: queue_join_def)
  have 6: "\<forall>c c'. step Init_step c = Some c' \<and> phase c' = Constructed \<longrightarrow> blocking (shared c')"
    by (auto split: phase.splits if_splits)
  from 1 2 3 4 5 6 show ?thesis by blast
qed

lemma blocking_send_runs:
  "\<exists>c0 c1 c2 c3. run ready_trace (BLEController_init True) = Some c0
      \<and> step (Call 0 (Send (PyInt 1) (PyList [PyInt 1]))) c0 = Some c1
      \<and> blocking (shared c0)
      \<and> run transmit_trace c1 = Some c2
      \<and> step (Resume 0) c2 = Some c3"
proof -
  have "(case run ready_trace (BLEController_init True) of None \<Rightarrow> False | Some c0 \<Rightarrow>
          blocking (shared c0) \<and>
          (case step (Call 0 (Send (PyInt 1) (PyList [PyInt 1]))) c0 of None \<Rightarrow> False | Some c1 \<Rightarrow>
            (case run transmit_trace c1 of None \<Rightarrow> False | Some c2 \<Rightarrow>
              (case step (Resume 0) c2 of None \<Rightarrow> False | Some c3 \<Rightarrow> True))))"
    by code_simp
  then obtain c0 where c0: "run ready_trace (BLEController_init True) = Some c0"
    and b: "blocking (shared c0)"
    and e1: "(case step (Call 0 (Send (PyInt 1) (PyList [PyInt 1]))) c0 of None \<Rightarrow> False | Some c1 \<Rightarrow>
            (case run transmit_trace c1 of None \<Rightarrow> False | Some c2 \<Rightarrow>
              (case step (Resume 0) c2 of None \<Rightarrow> False | Some c3 \<Rightarrow> True)))"
    by (rule option_caseE) blast
  from e1 obtain c1 where c1: "step (Call 0 (Send (PyInt 1) (PyList [PyInt 1]))) c0 = Some c1"
    and e2: "(case run transmit_trace c1 of None \<Rightarrow> False | Some c2 \<Rightarrow>
              (case step (Resume 0) c2 of None \<Rightarrow> False | Some c3 \<Rightarrow> True))"
    by (rule option_caseE)
  from e2 obtain c2 where c2: "run transmit_trace c1 = Some c2"
    and e3: "(case step (Resume 0) c2 of None \<Rightarrow> False | Some c3 \<Rightarrow> True)"
    by (rule option_caseE)
  from e3 obtain c3 where c3: "step (Resume 0) c2 = Some c3"
    by (rule option_caseE)
  from c0 b c1 c2 c3 show ?thesis by blast
qed

lemma turn_on_frame:
  "send_frame (PyInt 1) (PyList [PyInt 1])
     = Inr [0x33, 1, 1, 0, 0, 0, 0, 0, 0, 0, 0, 0, 0, 0, 0, 0, 0, 0, 0, 0x33]"
  by code_simp

theorem C7_witness:
  "\<exists>c0 c1 c2 c3. run ready_trace (BLEController_init True) = Some c0
      \<and> step (Call 0 (Send (PyInt 1) (PyList [PyInt 1]))) c0 = Some c1
      \<and> send_frame (PyInt 1) (PyList [PyInt 1])
          = Inr [0x33, 1, 1, 0, 0, 0, 0, 0, 0, 0, 0, 0, 0, 0, 0, 0, 0, 0, 0, 0x33]
      \<and> blocking (shared c0)
      \<and> run transmit_trace c1 = Some c2
      \<and> step (Resume 0) c2 = Some c3
      \<and> waiting c1 0 \<noteq> None
      \<and> queue (shared c2) = []
      \<and> prefix (map snd (enq_log (shared c1))) (cmd_frames (link (shared c2)))"
proof -
  from blocking_send_runs obtain c0 c1 c2 c3 where
    r: "run ready_trace (BLEController_init True) = Some c0"
      "step (Call 0 (Send (PyInt 1) (PyList [PyInt 1]))) c0 = Some c1"
      "blocking (shared c0)" "run transmit_trace c1 = Some c2" "step (Resume 0) c2 = Some c3"
    by blast
  from C7_blocking_send [OF r(1,2) turn_on_frame] r turn_on_frame show ?thesis by blast
qed

lemma keepalive_wire: "keepalive_frame = Inr (wire_frame 0xAA 0x01 [])"
  unfolding keepalive_frame_eq by code_simp

lemma wire_keepalive_bytes:
  "wire_frame 0xAA 0x01 [] = [0xAA, 0x01, 0, 0, 0, 0, 0, 0, 0, 0, 0, 0, 0, 0, 0, 0, 0, 0, 0, 0xAB]"
  by code_simp

lemma reachable_queue_shape:
  assumes "run evs (BLEController_init block) = Some c"
  shows "list_all (\<lambda>f. length f = 20 \<and> f ! 0 = 0x33) (queue (shared c))"
proof -
  let ?s = "shared c"
  from reachable_sys_inv [OF assms] have sh: "shape_inv ?s" by (simp add: sys_inv_def)
  from reachable_fifo [OF assms] obtain mid where
    mid: "cmd_frames (link ?s) @ mid @ queue ?s = map snd (enq_log ?s)" by blast
  have "list_all (\<lambda>f. length f = 20 \<and> f ! 0 = 0x33) (map snd (enq_log ?s))"
    using sh by (simp add: shape_inv_def)
  then have "list_all (\<lambda>f. length f = 20 \<and> f ! 0 = 0x33) (cmd_frames (link ?s) @ mid @ queue ?s)"
    by (simp only: mid(1))
  then show ?thesis by simp
qed

text \<open>
  Claim C5, as amended.  One iteration of the service loop of a Ready worker that has not
  been told to stop: if the queue is empty and the clock reading exceeds the binary64 sum
  \<^verbatim>\<open>prev_time + 3\<close> (\<^verbatim>\<open>prev_time\<close> is set when the last command frame was taken from the queue or
  the last keep-alive was written), exactly one keep-alive frame is written and \<^verbatim>\<open>prev_time\<close>
  is reset; if the queue is empty and the clock reading does not exceed that sum, nothing is
  written; if the queue is not empty, its first frame is written, which is never a keep-alive,
  whatever the clock reads.  The keep-alive frame has 20 bytes: \<open>0xAA\<close>, \<open>0x01\<close>, 17 zero
  bytes and the exclusive or of these 19 bytes, \<open>0xAB\<close>.
\<close>

theorem C5_keepalive_iteration:
  assumes r: "run evs (BLEController_init block) = Some c"
    and pc: "wpc (shared c) = LoopHead" and ns: "\<not> stop (shared c)"
  shows "(queue (shared c) = [] \<and> py_fadd (prev_time (shared c)) 3 < t \<longrightarrow>
           map_option shared
             (run [Worker W_check_stop, Worker (W_poll t), Worker (W_written t')] c)
           = Some ((shared c)\<lparr>link := link (shared c) @ [wire_frame 0xAA 0x01 []],
                               prev_time := t'\<rparr>))
       \<and> (queue (shared c) = [] \<and> \<not> py_fadd (prev_time (shared c)) 3 < t \<longrightarrow>
           map_option shared (run [Worker W_check_stop, Worker (W_poll t)] c) = Some (shared c)
           \<and> run [Worker W_check_stop, Worker (W_poll t), Worker (W_written t')] c = None)
       \<and> (\<forall>f q. queue (shared c) = f # q \<longrightarrow>
           map_option shared
             (run [Worker W_check_stop, Worker (W_poll t), Worker (W_written t'),
                   Worker W_task_done] c)
           = Some ((shared c)\<lparr>queue := q, unfinished := unfinished (shared c) - 1,
                               prev_time := t, link := link (shared c) @ [f]\<rparr>)
           \<and> f \<noteq> wire_frame 0xAA 0x01 [])
       \<and> keepalive_frame = Inr (wire_frame 0xAA 0x01 [])
       \<and> wire_frame 0xAA 0x01 []
            = [0xAA, 0x01, 0, 0, 0, 0, 0, 0, 0, 0, 0, 0, 0, 0, 0, 0, 0, 0, 0, 0xAB]
       \<and> length (wire_frame 0xAA 0x01 []) = 20
       \<and> wire_frame 0xAA 0x01 [] ! 19 = xor_bytes (take 19 (wire_frame 0xAA 0x01 []))"
proof -
  let ?s = "shared c"
  have 1: "queue ?s = [] \<and> py_fadd (prev_time ?s) 3 < t \<longrightarrow>
           map_option shared
             (run [Worker W_check_stop, Worker (W_poll t), Worker (W_written t')] c)
           = Some (?s\<lparr>link := link ?s @ [wire_frame 0xAA 0x01 []], prev_time := t'\<rparr>)"
    using pc ns by (simp add: keepalive_wire)
  have 2: "queue ?s = [] \<and> \<not> py_fadd (prev_time ?s) 3 < t \<longrightarrow>
           map_option shared (run [Worker W_check_stop, Worker (W_poll t)] c) = Some ?s
           \<and> run [Worker W_check_stop, Worker (W_poll t), Worker (W_written t')] c = None"
    using pc ns by simp
  have 3: "map_option shared
             (run [Worker W_check_stop, Worker (W_poll t), Worker (W_written t'),
                   Worker W_task_done] c)
           = Some (?s\<lparr>queue := q, unfinished := unfinished ?s - 1,
                               prev_time := t, link := link ?s @ [f]\<rparr>)
           \<and> f \<noteq> wire_frame 0xAA 0x01 []" if q: "queue ?s = f # q" for f q
  proof -
    obtain mid where
      "cmd_frames (link ?s) @ mid @ queue ?s = map snd (enq_log ?s)" "mid_ok (wpc ?s) mid"
      and mid: "unfinished ?s = length (queue ?s) + length mid + (if wpc ?s = Sent then 1 else 0)"
      by (rule reachable_fifo [OF r])
    from mid q have u: "unfinished ?s \<noteq> 0" by simp
    from reachable_queue_shape [OF r] q have "f ! 0 = 0x33" by simp
    then have "f \<noteq> wire_frame 0xAA 0x01 []" by (auto simp: wire_keepalive_bytes)
    then show ?thesis using pc ns q u by simp
  qed
  have 4: "length (wire_frame 0xAA 0x01 []) = 20" by (simp add: wire_frame_length)
  have 5: "wire_frame 0xAA 0x01 [] ! 19 = xor_bytes (take 19 (wire_frame 0xAA 0x01 []))"
    by (rule wire_frame_last) simp
  from 1 2 3 4 5 keepalive_wire wire_keepalive_bytes show ?thesis by blast
qed

text \<open>
  The claim as stated fails at exactly 3 seconds: a command is taken from the queue at time
  10; at time 13 the worker finds the queue empty and sends nothing (the test is
  \<^verbatim>\<open>time() > prev_time + 3\<close>); the next command goes out with no keep-alive before it.
\<close>

theorem C5_counterexample:
  "map_option (\<lambda>c. (prev_time (shared c), link (shared c)))
     (run boundary_trace (BLEController_init True))
   = Some (13, [[0x33, 1, 1, 0, 0, 0, 0, 0, 0, 0, 0, 0, 0, 0, 0, 0, 0, 0, 0, 0x33],
                [0x33, 1, 0, 0, 0, 0, 0, 0, 0, 0, 0, 0, 0, 0, 0, 0, 0, 0, 0, 0x32]])"
  by code_simp

lemma ready_trace_state:
  "\<exists>c. run ready_trace (BLEController_init True) = Some c \<and> wpc (shared c) = LoopHead
      \<and> \<not> stop (shared c) \<and> queue (shared c) = [] \<and> prev_time (shared c) = 0"
proof -
  have "case run ready_trace (BLEController_init True) of None \<Rightarrow> False
        | Some c \<Rightarrow> wpc (shared c) = LoopHead
            \<and> \<not> stop (shared c) \<and> queue (shared c) = [] \<and> prev_time (shared c) = 0"
    by code_simp
  then show ?thesis by (rule option_caseE) blast
qed

lemma queued_trace_state:
  "\<exists>c. run queued_trace (BLEController_init True) = Some c \<and> wpc (shared c) = LoopHead
      \<and> \<not> stop (shared c)
      \<and> queue (shared c) = [[0x33, 1, 1, 0, 0, 0, 0, 0, 0, 0, 0, 0, 0, 0, 0, 0, 0, 0, 0, 0x33]]"
proof -
  have "case run queued_trace (BLEController_init True) of None \<Rightarrow> False
        | Some c \<Rightarrow> wpc (shared c) = LoopHead \<and> \<not> stop (shared c)
            \<and> queue (shared c)
                = [[0x33, 1, 1, 0, 0, 0, 0, 0, 0, 0, 0, 0, 0, 0, 0, 0, 0, 0, 0, 0x33]]"
    by code_simp
  then show ?thesis by (rule option_caseE) blast
qed

lemma rounding_trace_state:
  "\<exists>c. run rounding_trace (BLEController_init True) = Some c \<and> wpc (shared c) = LoopHead
      \<and> \<not> stop (shared c) \<and> queue (shared c) = []
      \<and> prev_time (shared c) = 3602879701896397 / 36028797018963968"
proof -
  have "case run rounding_trace (BLEController_init True) of None \<Rightarrow> False
        | Some c \<Rightarrow> wpc (shared c) = LoopHead
            \<and> \<not> stop (shared c) \<and> queue (shared c) = []
            \<and> prev_time (shared c) = 3602879701896397 / 36028797018963968"
    by code_simp
  then show ?thesis by (rule option_caseE) blast
qed

lemma py_fadd_0_3: "py_fadd 0 3 = 3"
  by code_simp

text \<open>
  The binary64 sum can exceed the exact one: with \<^verbatim>\<open>prev_time\<close> the binary64 number nearest
  to 0.1 and a clock reading of the binary64 number nearest to 3.1, more than 3 seconds
  later, the test \<^verbatim>\<open>time() > prev_time + 3\<close> is false.
\<close>

lemma py_fadd_rounds_up:
  "3 < (6980579422424269 / 2251799813685248 :: rat) - 3602879701896397 / 36028797018963968
   \<and> \<not> py_fadd (3602879701896397 / 36028797018963968) 3
        < 6980579422424269 / 2251799813685248"
proof
  show "3 < (6980579422424269 / 2251799813685248 :: rat)
          - 3602879701896397 / 36028797018963968"
    by simp
  show "\<not> py_fadd (3602879701896397 / 36028797018963968) 3
        < 6980579422424269 / 2251799813685248"
    by code_simp
qed

theorem C5_witness:
  "(\<exists>c. run ready_trace (BLEController_init True) = Some c
       \<and> wpc (shared c) = LoopHead \<and> \<not> stop (shared c)
       \<and> queue (shared c) = [] \<and> py_fadd (prev_time (shared c)) 3 < 4
       \<and> map_option shared
            (run [Worker W_check_stop, Worker (W_poll 4), Worker (W_written 5)] c)
          = Some ((shared c)\<lparr>link := link (shared c) @ [wire_frame 0xAA 0x01 []],
                              prev_time := 5\<rparr>)
       \<and> \<not> py_fadd (prev_time (shared c)) 3 < 3
       \<and> map_option shared (run [Worker W_check_stop, Worker (W_poll 3)] c) = Some (shared c)
       \<and> run [Worker W_check_stop, Worker (W_poll 3), Worker (W_written 5)] c = None)
   \<and> (\<exists>c f q. run queued_trace (BLEController_init True) = Some c
       \<and> wpc (shared c) = LoopHead \<and> \<not> stop (shared c)
       \<and> queue (shared c) = f # q
       \<and> map_option shared
            (run [Worker W_check_stop, Worker (W_poll 4), Worker (W_written 5),
                  Worker W_task_done] c)
          = Some ((shared c)\<lparr>queue := q, unfinished := unfinished (shared c) - 1,
                              prev_time := 4, link := link (shared c) @ [f]\<rparr>)
       \<and> f \<noteq> wire_frame 0xAA 0x01 [])
   \<and> (\<exists>c. run rounding_trace (BLEController_init True) = Some c
       \<and> wpc (shared c) = LoopHead \<and> \<not> stop (shared c) \<and> queue (shared c) = []
       \<and> 3 < 6980579422424269 / 2251799813685248 - prev_time (shared c)
       \<and> \<not> py_fadd (prev_time (shared c)) 3 < 6980579422424269 / 2251799813685248
       \<and> map_option shared
            (run [Worker W_check_stop, Worker (W_poll (6980579422424269 / 2251799813685248))] c)
          = Some (shared c))"
proof -
  from ready_trace_state obtain c where
    c: "run ready_trace (BLEController_init True) = Some c" "wpc (shared c) = LoopHead"
      "\<not> stop (shared c)" "queue (shared c) = []" "prev_time (shared c) = 0"
    by blast
  have t: "py_fadd (prev_time (shared c)) 3 < 4" "\<not> py_fadd (prev_time (shared c)) 3 < 3"
    using c(5) by (simp_all add: py_fadd_0_3)
  from queued_trace_state obtain d where
    d: "run queued_trace (BLEController_init True) = Some d" "wpc (shared d) = LoopHead"
      "\<not> stop (shared d)"
      "queue (shared d) = [0x33, 1, 1, 0, 0, 0, 0, 0, 0, 0, 0, 0, 0, 0, 0, 0, 0, 0, 0, 0x33] # []"
    by blast
  from rounding_trace_state obtain e where
    e: "run rounding_trace (BLEController_init True) = Some e" "wpc (shared e) = LoopHead"
      "\<not> stop (shared e)" "queue (shared e) = []"
      "prev_time (shared e) = 3602879701896397 / 36028797018963968"
    by blast
  have u: "3 < 6980579422424269 / 2251799813685248 - prev_time (shared e)"
    "\<not> py_fadd (prev_time (shared e)) 3 < 6980579422424269 / 2251799813685248"
    unfolding e(5) using py_fadd_rounds_up by (rule conjunct1, rule conjunct2)
  have p1: "\<exists>c. run ready_trace (BLEController_init True) = Some c
       \<and> wpc (shared c) = LoopHead \<and> \<not> stop (shared c)
       \<and> queue (shared c) = [] \<and> py_fadd (prev_time (shared c)) 3 < 4
       \<and> map_option shared
            (run [Worker W_check_stop, Worker (W_poll 4), Worker (W_written 5)] c)
          = Some ((shared c)\<lparr>link := link (shared c) @ [wire_frame 0xAA 0x01 []],
                              prev_time := 5\<rparr>)
       \<and> \<not> py_fadd (prev_time (shared c)) 3 < 3
       \<and> map_option shared (run [Worker W_check_stop, Worker (W_poll 3)] c) = Some (shared c)
       \<and> run [Worker W_check_stop, Worker (W_poll 3), Worker (W_written 5)] c = None"
    using C5_keepalive_iteration [OF c(1,2,3), of 4 5]
      C5_keepalive_iteration [OF c(1,2,3), of 3 5] c t
    by blast
  have p2: "\<exists>c f q. run queued_trace (BLEController_init True) = Some c
       \<and> wpc (shared c) = LoopHead \<and> \<not> stop (shared c)
       \<and> queue (shared c) = f # q
       \<and> map_option shared
            (run [Worker W_check_stop, Worker (W_poll 4), Worker (W_written 5),
                  Worker W_task_done] c)
          = Some ((shared c)\<lparr>queue := q, unfinished := unfinished (shared c) - 1,
                              prev_time := 4, link := link (shared c) @ [f]\<rparr>)
       \<and> f \<noteq> wire_frame 0xAA 0x01 []"
    using C5_keepalive_iteration [OF d(1,2,3), of 4 5] d by blast
  have p3: "\<exists>c. run rounding_trace (BLEController_init True) = Some c
       \<and> wpc (shared c) = LoopHead \<and> \<not> stop (shared c) \<and> queue (shared c) = []
       \<and> 3 < 6980579422424269 / 2251799813685248 - prev_time (shared c)
       \<and> \<not> py_fadd (prev_time (shared c)) 3 < 6980579422424269 / 2251799813685248
       \<and> map_option shared
            (run [Worker W_check_stop, Worker (W_poll (6980579422424269 / 2251799813685248))] c)
          = Some (shared c)"
    using C5_keepalive_iteration [OF e(1,2,3), of "6980579422424269 / 2251799813685248" 0]
      e(1,2,3,4) u
    by blast
  show ?thesis by (rule conjI [OF p1 conjI [OF p2 p3]])
qed

lemma send_frame_errors:
  assumes "send_frame cmd payload = Inl e"
  shows "e \<in> {ValueError ''Invalid command'', ValueError ''Invalid payload'',
              ValueError ''Payload too long'', ValueError ''bytes must be in range(0, 256)''}"
proof (cases "as_int cmd")
  case None
  with assms show ?thesis by (simp add: send_frame_def)
next
  case (Some c)
  show ?thesis
  proof (cases "check_payload payload")
    case None
    with assms Some show ?thesis by (simp add: send_frame_def)
  next
    case p: (Some p)
    show ?thesis
    proof (cases "17 < payload_len p")
      case True
      with assms Some p show ?thesis by (simp add: send_frame_def)
    next
      case False
      show ?thesis
      proof (cases "payload_bytes p")
        case (Inl e')
        then have "e' = ValueError ''bytes must be in range(0, 256)''"
          by (cases p) (auto simp: bytes_of_ints_def split: if_splits)
        with assms Some p False Inl show ?thesis
          by (simp add: send_frame_def bytes_of_ints_header bind_err_def)
      next
        case (Inr body)
        from False have "payload_len p \<le> 17" by simp
        from send_frame_ok [OF Some p this Inr] assms show ?thesis by simp
      qed
    qed
  qed
qed

lemma work_step_dead: "wpc s = Exited \<or> wpc s = Crashed \<Longrightarrow> work_step w s = None"
  by (cases w) auto

lemma work_step_stop: "work_step w s = Some s' \<Longrightarrow> stop s' = stop s"
  by (cases w; cases "wpc s") (auto split: list.splits if_splits sum.splits)

lemma work_step_ready: "work_step w s = Some s' \<Longrightarrow> ready s \<Longrightarrow> ready s'"
  by (cases w; cases "wpc s") (auto split: list.splits if_splits sum.splits)

lemma stop_stays:
  assumes "conts_ok c" "stop (shared c)" "run evs c = Some c'"
  shows "stop (shared c')"
proof -
  have a: "api_stable stop" by (simp add: api_stable_def queue_put_def stop_work_def)
  have w: "work_stable stop" unfolding work_stable_def using work_step_stop by metis
  from run_pres [OF a w assms] show ?thesis by simp
qed

lemma exited_stays:
  assumes "conts_ok c" "wpc (shared c) = Exited" "run evs c = Some c'"
  shows "wpc (shared c') = Exited \<and> link (shared c') = link (shared c)
       \<and> unfinished (shared c) \<le> unfinished (shared c')"
proof -
  let ?P = "\<lambda>s. wpc s = Exited \<and> link s = link (shared c) \<and> unfinished (shared c) \<le> unfinished s"
  have a: "api_stable ?P" by (simp add: api_stable_def queue_put_def stop_work_def)
  have w: "work_stable ?P" unfolding work_stable_def using work_step_dead by fastforce
  have "?P (shared c)" using assms(2) by simp
  from run_pres [OF a w assms(1) this assms(3)] show ?thesis by simp
qed

text \<open>
  Claim C8, as amended.  \<^verbatim>\<open>disconnect()\<close> sets the worker's stop flag, which nothing ever
  clears.  A \<^verbatim>\<open>_send\<close> after it does not fail on that account: it raises only the errors about
  its arguments, and with valid arguments it puts its frame on the queue as before.  Once the
  worker has left its loop nothing more is written to the link, \<^verbatim>\<open>unfinished_tasks\<close> never
  decreases, and while it is positive no \<^verbatim>\<open>join\<close> returns.
\<close>

theorem C8_send_after_disconnect:
  assumes r: "run evs (BLEController_init block) = Some c"
    and s: "stop (shared c)"
    and r': "run evs' c = Some c'"
  shows "stop (shared c')
       \<and> (\<forall>f. send_frame cmd payload = Inr f \<longrightarrow>
             send t cmd payload (shared c')
               = (if blocking (shared c') then Wait (queue_put t f (shared c')) Done
                  else Done (queue_put t f (shared c'))))
       \<and> (\<forall>e. send_frame cmd payload = Inl e \<longrightarrow>
             send t cmd payload (shared c') = Raised e (shared c')
             \<and> e \<in> {ValueError ''Invalid command'', ValueError ''Invalid payload'',
                     ValueError ''Payload too long'',
                     ValueError ''bytes must be in range(0, 256)''})
       \<and> (wpc (shared c) = Exited \<longrightarrow>
             wpc (shared c') = Exited \<and> link (shared c') = link (shared c)
             \<and> unfinished (shared c) \<le> unfinished (shared c')
             \<and> (0 < unfinished (shared c) \<longrightarrow> (\<forall>u. step (Resume u) c' = None)))
       \<and> (\<forall>u s. disconnect u False s = Done (stop_work s) \<and> stop (stop_work s))"
proof -
  from reachable_sys_inv [OF r] have ok: "conts_ok c" by simp
  have 1: "stop (shared c')" using stop_stays [OF ok s r'] .
  have 2: "\<forall>f. send_frame cmd payload = Inr f \<longrightarrow>
             send t cmd payload (shared c')
               = (if blocking (shared c') then Wait (queue_put t f (shared c')) Done
                  else Done (queue_put t f (shared c')))"
    by (simp add: send_def queue_join_def queue_put_def Let_def)
  have 3: "\<forall>e. send_frame cmd payload = Inl e \<longrightarrow>
             send t cmd payload (shared c') = Raised e (shared c')
             \<and> e \<in> {ValueError ''Invalid command'', ValueError ''Invalid payload'',
                     ValueError ''Payload too long'',
                     ValueError ''bytes must be in range(0, 256)''}"
  proof (intro allI impI conjI)
    fix e
    assume e: "send_frame cmd payload = Inl e"
    then show "send t cmd payload (shared c') = Raised e (shared c')" by (rule send_raises)
    from e show "e \<in> {ValueError ''Invalid command'', ValueError ''Invalid payload'',
                     ValueError ''Payload too long'',
                     ValueError ''bytes must be in range(0, 256)''}"
      by (rule send_frame_errors)
  qed
  have 4: "wpc (shared c) = Exited \<longrightarrow>
             wpc (shared c') = Exited \<and> link (shared c') = link (shared c)
             \<and> unfinished (shared c) \<le> unfinished (shared c')
             \<and> (0 < unfinished (shared c) \<longrightarrow> (\<forall>u. step (Resume u) c' = None))"
  proof
    assume e: "wpc (shared c) = Exited"
    from exited_stays [OF ok e r']
    have x: "wpc (shared c') = Exited" "link (shared c') = link (shared c)"
      "unfinished (shared c) \<le> unfinished (shared c')" by simp_all
    have "step (Resume u) c' = None" if "0 < unfinished (shared c)" for u
    proof -
      from that x(3) have "unfinished (shared c') \<noteq> 0" by simp
      then show ?thesis by (simp split: option.splits)
    qed
    with x show "wpc (shared c') = Exited \<and> link (shared c') = link (shared c)
             \<and> unfinished (shared c) \<le> unfinished (shared c')
             \<and> (0 < unfinished (shared c) \<longrightarrow> (\<forall>u. step (Resume u) c' = None))" by blast
  qed
  have 5: "\<forall>u s. disconnect u False s = Done (stop_work s) \<and> stop (stop_work s)"
    by (simp add: disconnect_def cleanup_def stop_work_def)
  show ?thesis by (intro conjI 1 2 3 4 5)
qed

text \<open>
  The claim as stated fails: after \<^verbatim>\<open>disconnect()\<close> and the worker's exit, \<^verbatim>\<open>_send\<close> with
  \<^verbatim>\<open>blocking\<close> off returns normally and leaves its frame in the queue.
\<close>

theorem C8_counterexample:
  "(case run stopped_trace (BLEController_init True) of
      None \<Rightarrow> False
    | Some c \<Rightarrow>
        stop (shared c) \<and> wpc (shared c) = Exited \<and> \<not> connected (shared c) \<and>
        (case send 0 (PyInt 1) (PyList [PyInt 1]) (shared c) of
           Done s \<Rightarrow> queue s = [[0x33, 1, 1, 0, 0, 0, 0, 0, 0, 0, 0, 0, 0, 0, 0, 0, 0, 0, 0, 0x33]]
         | Raised e s \<Rightarrow> False
         | Wait s k \<Rightarrow> False))"
  by code_simp

lemma stopped_trace_state:
  "\<exists>c. run stopped_trace (BLEController_init True) = Some c \<and> stop (shared c)
      \<and> wpc (shared c) = Exited"
proof -
  have "case run stopped_trace (BLEController_init True) of None \<Rightarrow> False
        | Some c \<Rightarrow> stop (shared c) \<and> wpc (shared c) = Exited"
    by code_simp
  then show ?thesis by (rule option_caseE) blast
qed

lemma stranded_trace_state:
  "\<exists>c. run stranded_trace (BLEController_init True) = Some c \<and> stop (shared c)
      \<and> wpc (shared c) = Exited \<and> 0 < unfinished (shared c)"
proof -
  have "case run stranded_trace (BLEController_init True) of None \<Rightarrow> False
        | Some c \<Rightarrow> stop (shared c) \<and> wpc (shared c) = Exited \<and> 0 < unfinished (shared c)"
    by code_simp
  then show ?thesis by (rule option_caseE) blast
qed

lemma turn_on_runs: 
  assumes "run stopped_trace (BLEController_init True) = Some c"
  shows "\<exists>c'. run [Call 0 Turn_on] c = Some c'"
proof -
  have "case run stopped_trace (BLEController_init True) of None \<Rightarrow> False
        | Some c \<Rightarrow> (case run [Call 0 Turn_on] c of None \<Rightarrow> False | Some c' \<Rightarrow> True)"
    by code_simp
  then obtain d where d: "run stopped_trace (BLEController_init True) = Some d"
    "case run [Call 0 Turn_on] d of None \<Rightarrow> False | Some c' \<Rightarrow> True"
    by (rule option_caseE)
  from d(1) assms have "d = c" by simp
  with d(2) show ?thesis by (cases "run [Call 0 Turn_on] c") simp_all
qed

theorem C8_witness:
  "(\<exists>c c'. run stopped_trace (BLEController_init True) = Some c \<and> stop (shared c)
       \<and> wpc (shared c) = Exited
       \<and> run [Call 0 Turn_on] c = Some c'
       \<and> stop (shared c')
       \<and> wpc (shared c') = Exited \<and> link (shared c') = link (shared c))
   \<and> (\<exists>c. run stranded_trace (BLEController_init True) = Some c \<and> stop (shared c)
       \<and> wpc (shared c) = Exited \<and> 0 < unfinished (shared c)
       \<and> run [] c = Some c
       \<and> step (Resume 0) c = None)"
proof -
  from stopped_trace_state obtain c where
    c: "run stopped_trace (BLEController_init True) = Some c" "stop (shared c)"
      "wpc (shared c) = Exited" by blast
  from turn_on_runs [OF c(1)] obtain c' where c': "run [Call 0 Turn_on] c = Some c'" ..
  from stranded_trace_state obtain d where
    d: "run stranded_trace (BLEController_init True) = Some d" "stop (shared d)"
      "wpc (shared d) = Exited" "0 < unfinished (shared d)" by blast
  have d': "run [] d = Some d" by simp
  note T = C8_send_after_disconnect [OF c(1,2) c', of "PyInt 1" "PyList [PyInt 1]" 0]
  note U = C8_send_after_disconnect [OF d(1,2) d', of "PyInt 1" "PyList [PyInt 1]" 0]
  have t1: "stop (shared c')" using T by (rule conjunct1)
  have t4: "wpc (shared c') = Exited \<and> link (shared c') = link (shared c)"
    using T [THEN conjunct2, THEN conjunct2, THEN conjunct2, THEN conjunct1] c(3) by simp
  have u4: "step (Resume 0) d = None"
    using U [THEN conjunct2, THEN conjunct2, THEN conjunct2, THEN conjunct1] d(3,4) by simp
  from c c' t1 t4 have A: "\<exists>c c'. run stopped_trace (BLEController_init True) = Some c \<and> stop (shared c)
       \<and> wpc (shared c) = Exited
       \<and> run [Call 0 Turn_on] c = Some c'
       \<and> stop (shared c')
       \<and> wpc (shared c') = Exited \<and> link (shared c') = link (shared c)" by blast
  from d d' u4 have B: "\<exists>c. run stranded_trace (BLEController_init True) = Some c \<and> stop (shared c)
       \<and> wpc (shared c) = Exited \<and> 0 < unfinished (shared c)
       \<and> run [] c = Some c
       \<and> step (Resume 0) c = None" by blast
  from A B show ?thesis by (rule conjI)
qed

lemma settle_phase: "phase (settle t out c) = phase c"
  by (cases out) simp_all

lemma step_phase:
  assumes "step e c = Some c'" "e \<noteq> Init_step"
  shows "phase c' = phase c"
  using assms by (cases e) (auto simp: settle_phase split: option.splits if_splits)

lemma init_step_cases:
  assumes "step Init_step c = Some c'"
  obtains b where "phase c = Constructing b" "b" "\<not> ready (shared c)" "c' = c"
  | b where "phase c = Constructing b" "b \<longrightarrow> ready (shared c)"
      "c' = c\<lparr>shared := (shared c)\<lparr>blocking := True\<rparr>, phase := Constructed\<rparr>"
  using assms by (cases "phase c") (auto split: if_splits)

lemma ready_stays:
  assumes "conts_ok c" "ready (shared c)" "step e c = Some c'"
  shows "ready (shared c')"
proof -
  have a: "api_stable ready" by (simp add: api_stable_def queue_put_def stop_work_def)
  have w: "work_stable ready" unfolding work_stable_def using work_step_ready by blast
  from step_pres [OF a w assms] show ?thesis .
qed

lemma step_phase_inv:
  assumes "phase_inv block c" "step e c = Some c'"
  shows "phase_inv block c'"
proof -
  from assms(1) have ok: "conts_ok c" by (simp add: phase_inv_def)
  have ok': "conts_ok c'" using step_conts_ok [OF ok assms(2)] .
  show ?thesis
  proof (cases "e = Init_step")
    case True
    with assms(2) have "step Init_step c = Some c'" by simp
    then show ?thesis
    proof (cases rule: init_step_cases)
      case (1 b)
      with assms(1) show ?thesis by simp
    next
      case (2 b)
      with assms(1) have "b = block" by (simp add: phase_inv_def)
      with 2 ok' show ?thesis by (simp add: phase_inv_def)
    qed
  next
    case False
    from step_phase [OF assms(2) False] have p: "phase c' = phase c" .
    show ?thesis
    proof (cases "phase c = Constructed \<and> block")
      case True
      with assms(1) have "ready (shared c)" by (simp add: phase_inv_def)
      from ready_stays [OF ok this assms(2)] True p ok' show ?thesis
        by (simp add: phase_inv_def)
    next
      case False
      with assms(1) p ok' show ?thesis by (auto simp: phase_inv_def)
    qed
  qed
qed

lemma reachable_phase_inv:
  assumes "run evs (BLEController_init block) = Some c"
  shows "phase_inv block c"
proof (rule run_invariant [where I = "phase_inv block"])
  show "phase_inv block (BLEController_init block)"
    by (simp add: phase_inv_def conts_ok_init) (simp add: BLEController_init_def)
  show "run evs (BLEController_init block) = Some c" by fact
  fix e c c'
  assume "phase_inv block c" "step e c = Some c'"
  then show "phase_inv block c'" by (rule step_phase_inv)
qed

lemma step_dead_inv:
  assumes "dead_inv block c" "step e c = Some c'"
  shows "dead_inv block c'"
proof -
  let ?P = "\<lambda>s. wpc s = Crashed \<and> \<not> ready s \<and> \<not> connected s \<and> link s = []"
  have a: "api_stable ?P" by (simp add: api_stable_def queue_put_def stop_work_def)
  have w: "work_stable ?P" unfolding work_stable_def using work_step_dead by fastforce
  from assms(1) have ok: "conts_ok c" and P: "?P (shared c)" by (simp_all add: dead_inv_def)
  have P': "?P (shared c')" using step_pres [OF a w ok P assms(2)] .
  have ok': "conts_ok c'" using step_conts_ok [OF ok assms(2)] .
  have "phase c' = Constructing True" if block
  proof (cases "e = Init_step")
    case True
    from that assms(1) have "phase c = Constructing True" "\<not> ready (shared c)"
      by (simp_all add: dead_inv_def)
    with assms(2) True show ?thesis by simp
  next
    case False
    from step_phase [OF assms(2) False] that assms(1) show ?thesis by (simp add: dead_inv_def)
  qed
  with P' ok' show ?thesis by (simp add: dead_inv_def)
qed

text \<open>
  Claim C9, as amended.  If the connection attempt fails, the worker thread ends: \<^verbatim>\<open>ready\<close>
  stays false, the connection is never open and nothing is ever written to the link.  The
  constructor has no path on which it raises: with \<^verbatim>\<open>block\<close> false it returns normally, and
  with \<^verbatim>\<open>block\<close> true every evaluation of its loop condition finds \<^verbatim>\<open>ready\<close> false, so it
  does not return.
\<close>

theorem C9_connect_failure:
  assumes r: "run evs (BLEController_init block) = Some c"
    and f: "step (Worker W_connect_failed) c = Some c1"
    and r': "run evs' c1 = Some c'"
  shows "wpc (shared c') = Crashed \<and> \<not> ready (shared c') \<and> \<not> connected (shared c')
       \<and> link (shared c') = []
       \<and> (block \<longrightarrow> phase c' = Constructing True \<and> step Init_step c' = Some c')
       \<and> (\<not> block \<longrightarrow>
            phase c' = Constructed
            \<or> (\<exists>c''. step Init_step c' = Some c'' \<and> phase c'' = Constructed))"
proof -
  from reachable_sys_inv [OF r] have inv: "conn_inv (shared c)" and ok: "conts_ok c"
    by (simp_all add: sys_inv_def)
  from f have pc: "wpc (shared c) = Connecting" by (cases "wpc (shared c)") auto
  with f have c1: "c1 = c\<lparr>shared := (shared c)\<lparr>wpc := Crashed\<rparr>\<rparr>" by auto
  from inv pc have nr: "\<not> ready (shared c)" "\<not> connected (shared c)" "link (shared c) = []"
    by (simp_all add: conn_inv_def)
  have r1: "run (evs @ [Worker W_connect_failed]) (BLEController_init block) = Some c1"
    using r f by (simp add: run_snoc)
  from reachable_phase_inv [OF r1] have p1: "phase_inv block c1" .
  have "block \<longrightarrow> phase c1 = Constructing True"
    using p1 nr(1) by (auto simp: phase_inv_def c1)
  with nr p1 have d1: "dead_inv block c1" by (simp add: dead_inv_def phase_inv_def c1)
  have d: "dead_inv block c'"
    by (rule run_invariant [where I = "dead_inv block", OF step_dead_inv d1 r'])
  have r2: "run ((evs @ [Worker W_connect_failed]) @ evs') (BLEController_init block) = Some c'"
    using r1 r' by (simp only: run_append option.case)
  from reachable_phase_inv [OF r2] have p: "phase_inv block c'" .
  from d have 1: "wpc (shared c') = Crashed \<and> \<not> ready (shared c') \<and> \<not> connected (shared c')
       \<and> link (shared c') = []" by (simp add: dead_inv_def)
  have 2: "block \<longrightarrow> phase c' = Constructing True \<and> step Init_step c' = Some c'"
    using d by (simp add: dead_inv_def)
  have 3: "\<not> block \<longrightarrow> phase c' = Constructed
            \<or> (\<exists>c''. step Init_step c' = Some c'' \<and> phase c'' = Constructed)"
    using p by (auto simp: phase_inv_def)
  from 1 2 3 show ?thesis by (intro conjI) simp_all
qed

text \<open>
  The claim as stated fails: after a failed connection attempt the constructor with
  \<^verbatim>\<open>block=False\<close> has returned normally, and the constructor with \<^verbatim>\<open>block=True\<close> is still in
  its loop.
\<close>

theorem C9_counterexample:
  "map_option (\<lambda>c. (phase c, wpc (shared c), ready (shared c)))
     (run [Worker (W_start 0), Worker W_connect_failed, Init_step] (BLEController_init False))
     = Some (Constructed, Crashed, False)
   \<and> map_option (\<lambda>c. (phase c, wpc (shared c), ready (shared c)))
     (run [Worker (W_start 0), Worker W_connect_failed, Init_step, Init_step, Init_step]
        (BLEController_init True))
     = Some (Constructing True, Crashed, False)"
  by code_simp

lemma failed_trace_runs:
  "\<exists>c c1 c'. run failed_trace (BLEController_init b) = Some c
      \<and> step (Worker W_connect_failed) c = Some c1 \<and> run [Init_step] c1 = Some c'"
  by (cases b) (simp_all add: failed_trace_def BLEController_init_def)

theorem C9_witness:
  "(\<exists>c c1 c'. run failed_trace (BLEController_init True) = Some c
      \<and> step (Worker W_connect_failed) c = Some c1 \<and> run [Init_step] c1 = Some c'
      \<and> wpc (shared c') = Crashed \<and> \<not> ready (shared c') \<and> \<not> connected (shared c')
      \<and> link (shared c') = []
      \<and> phase c' = Constructing True \<and> step Init_step c' = Some c')
   \<and> (\<exists>c c1 c'. run failed_trace (BLEController_init False) = Some c
      \<and> step (Worker W_connect_failed) c = Some c1 \<and> run [Init_step] c1 = Some c'
      \<and> wpc (shared c') = Crashed \<and> \<not> ready (shared c')
      \<and> (phase c' = Constructed
            \<or> (\<exists>c''. step Init_step c' = Some c'' \<and> phase c'' = Constructed)))"
proof -
  from failed_trace_runs [of True] obtain c c1 c' where
    c: "run failed_trace (BLEController_init True) = Some c"
      "step (Worker W_connect_failed) c = Some c1" "run [Init_step] c1 = Some c'" by blast
  from failed_trace_runs [of False] obtain d d1 d' where
    d: "run failed_trace (BLEController_init False) = Some d"
      "step (Worker W_connect_failed) d = Some d1" "run [Init_step] d1 = Some d'" by blast
  note T = C9_connect_failure [OF c]
  note U = C9_connect_failure [OF d]
  from T c have A: "\<exists>c c1 c'. run failed_trace (BLEController_init True) = Some c
      \<and> step (Worker W_connect_failed) c = Some c1 \<and> run [Init_step] c1 = Some c'
      \<and> wpc (shared c') = Crashed \<and> \<not> ready (shared c') \<and> \<not> connected (shared c')
      \<and> link (shared c') = []
      \<and> phase c' = Constructing True \<and> step Init_step c' = Some c'" by blast
  from U d have B: "\<exists>c c1 c'. run failed_trace (BLEController_init False) = Some c
      \<and> step (Worker W_connect_failed) c = Some c1 \<and> run [Init_step] c1 = Some c'
      \<and> wpc (shared c') = Crashed \<and> \<not> ready (shared c')
      \<and> (phase c' = Constructed
            \<or> (\<exists>c''. step Init_step c' = Some c'' \<and> phase c'' = Constructed))" by blast
  from A B show ?thesis by (rule conjI)
qed

end
